theory Spec2Isabelle
  imports Main
begin

section \<open>The Soundraw extension: outside world\<close>

text \<open>
  The extension talks to four collaborators: the file system (the scratch directory
  \<open>/tmp\<close>), the network, the AppleScript bridge that drives QuickTime Player, and the
  callbacks subscribed to the playback manager. The world records what they hold and
  what they were asked; \<open>console.debug\<close> output is left out.
\<close>

type_synonym path = string
type_synonym bytes = string

datatype error =
    Error string
  | TypeError string
  | SoundrawAPIError string "nat option"
  | DownloadError "nat option" string
  | NonError string

record cached_file =
  content :: bytes
  ctype :: string

record world =
  files :: "path \<rightharpoonup> cached_file"
  scripts :: "string list"
  fetches :: "string list"
  notified :: "(nat \<times> string option) list"

datatype http_result =
    NetworkFailure string
  | HttpResponse nat string string bytes

text \<open>
  What the collaborators answer is not fixed by the program: it is a parameter of every
  operation. Each answer may depend on the whole world at the moment of the call.
  \<open>urlHash\<close> is the digest the path resolver applies to a URL.
\<close>

record env =
  bridge :: "world \<Rightarrow> string \<Rightarrow> error option"
  http :: "world \<Rightarrow> string \<Rightarrow> http_result"
  unlink_error :: "world \<Rightarrow> path \<Rightarrow> error option"
  urlHash :: "string \<Rightarrow> string"

definition hex_digit :: "nat \<Rightarrow> char" where
  "hex_digit n = (if n < 10 then char_of (48 + n) else char_of (55 + n))"

definition hex_byte :: "char \<Rightarrow> string" where
  "hex_byte c = (let n = of_char c :: nat in [hex_digit (n div 16), hex_digit (n mod 16)])"

text \<open>JavaScript truthiness of a \<open>string | null | undefined\<close>.\<close>

definition truthy_str :: "string option \<Rightarrow> bool" where
  "truthy_str v = (case v of None \<Rightarrow> False | Some s \<Rightarrow> s \<noteq> [])"

definition existsSync :: "world \<Rightarrow> path \<Rightarrow> bool" where
  "existsSync w p = (files w p \<noteq> None)"

definition statSize :: "world \<Rightarrow> path \<Rightarrow> nat" where
  "statSize w p = (case files w p of None \<Rightarrow> 0 | Some f \<Rightarrow> length (content f))"

definition unlinkSync :: "env \<Rightarrow> path \<Rightarrow> world \<Rightarrow> (error + unit) \<times> world" where
  "unlinkSync e p w =
     (case unlink_error e w p of
        Some err \<Rightarrow> (Inl err, w)
      | None \<Rightarrow> (Inr (), w\<lparr>files := (files w)(p := None)\<rparr>))"

text \<open>
  \<open>runAppleScript\<close>: the script is handed to the bridge (and logged) when the call is
  made; the promise settles later with the bridge's answer.
\<close>

definition bridge_call :: "string \<Rightarrow> world \<Rightarrow> world" where
  "bridge_call script w = w\<lparr>scripts := scripts w @ [script]\<rparr>"

definition bridge_result :: "env \<Rightarrow> string \<Rightarrow> world \<Rightarrow> error + unit" where
  "bridge_result e script w = (case bridge e w script of Some err \<Rightarrow> Inl err | None \<Rightarrow> Inr ())"

definition runAppleScript :: "env \<Rightarrow> string \<Rightarrow> world \<Rightarrow> (error + unit) \<times> world" where
  "runAppleScript e script w = (let w' = bridge_call script w in (bridge_result e script w', w'))"

section \<open>Fingerprint and path resolver, cache and downloader\<close>

text \<open>
  Modelled from the spec: \<open>lib/file.ts\<close> (\<open>getExpectedFilePath\<close>, \<open>getOrDownloadFile\<close>) is
  not among the sources; only its callers are. Section 4.1 of the specification:
  strip the characters of the name outside the alphanumeric/space/dash/underscore set,
  collapse whitespace, append a short hash of the URL, then the extension: the explicit
  one first, else the one of the URL's path suffix, else a fixed default.
\<close>

definition safe_char :: "char \<Rightarrow> bool" where
  "safe_char c =
     (let n = of_char c :: nat
      in (48 \<le> n \<and> n \<le> 57) \<or> (65 \<le> n \<and> n \<le> 90) \<or> (97 \<le> n \<and> n \<le> 122)
         \<or> c = CHR '' '' \<or> c = CHR ''-'' \<or> c = CHR ''_'')"

fun collapse_spaces :: "string \<Rightarrow> string" where
  "collapse_spaces (a # b # cs) =
     (if a = CHR '' '' \<and> b = CHR '' '' then collapse_spaces (b # cs)
      else a # collapse_spaces (b # cs))"
| "collapse_spaces cs = cs"

definition sanitizeName :: "string \<Rightarrow> string" where
  "sanitizeName name = collapse_spaces (filter safe_char name)"

definition url_path :: "string \<Rightarrow> string" where
  "url_path url =
     takeWhile (\<lambda>c. c \<noteq> CHR ''?'' \<and> c \<noteq> CHR ''#'')
       (dropWhile (\<lambda>c. c \<noteq> CHR ''/'')
          (dropWhile (\<lambda>c. c = CHR ''/'') (dropWhile (\<lambda>c. c \<noteq> CHR ''/'') url)))"

definition last_segment :: "string \<Rightarrow> string" where
  "last_segment p = rev (takeWhile (\<lambda>c. c \<noteq> CHR ''/'') (rev p))"

definition defaultExtension :: string where
  "defaultExtension = ''.m4a''"

definition inferExtension :: "string \<Rightarrow> string" where
  "inferExtension url =
     (let seg = last_segment (url_path url);
          suffix = rev (takeWhile (\<lambda>c. c \<noteq> CHR ''.'') (rev seg))
      in if CHR ''.'' \<in> set seg \<and> suffix \<noteq> [] then CHR ''.'' # suffix
         else defaultExtension)"

text \<open>
  Modelled from the spec: \<open>getExpectedFilePath\<close> of the missing \<open>lib/file.ts\<close>, the
  \<open>resolvePath\<close> of section 4.1: directory, sanitized name, hash of the URL, extension.
  It takes no world and returns none.
\<close>

definition getExpectedFilePath ::
  "env \<Rightarrow> string \<Rightarrow> string \<Rightarrow> string option \<Rightarrow> string \<Rightarrow> path" where
  "getExpectedFilePath e url name explicitExtension baseDir =
     baseDir @ ''/'' @ sanitizeName name @ ''_'' @ urlHash e url @
       (case explicitExtension of Some x \<Rightarrow> x | None \<Rightarrow> inferExtension url)"

record file_result =
  path :: path
  buffer :: bytes
  contentType :: string

text \<open>
  Modelled from the spec: \<open>getOrDownloadFile\<close> of the missing \<open>lib/file.ts\<close>, the
  \<open>getOrFetch\<close> of section 4.2. A file of nonzero size at the resolved path is a
  hit, returned without a network call; a zero-length file counts as absent. On a miss
  the URL is fetched; a non-success status, a transport failure or an empty body is a
  DownloadError and writes nothing; otherwise the body is written to the resolved path
  and returned with the response's content type.
\<close>

definition getOrDownloadFile ::
  "env \<Rightarrow> string \<Rightarrow> string \<Rightarrow> string \<Rightarrow> world \<Rightarrow> (error + file_result) \<times> world" where
  "getOrDownloadFile e url baseDir name w =
     (let p = getExpectedFilePath e url name None baseDir
      in if existsSync w p \<and> statSize w p > 0
         then (case files w p of
                 Some f \<Rightarrow> (Inr \<lparr>path = p, buffer = content f, contentType = ctype f\<rparr>, w)
               | None \<Rightarrow> (Inl (Error ''ENOENT''), w))
         else (let w1 = w\<lparr>fetches := fetches w @ [url]\<rparr>
               in case http e w1 url of
                    NetworkFailure msg \<Rightarrow> (Inl (DownloadError None msg), w1)
                  | HttpResponse status reason ct body \<Rightarrow>
                      if \<not> (200 \<le> status \<and> status < 300)
                      then (Inl (DownloadError (Some status) reason), w1)
                      else if body = []
                      then (Inl (DownloadError (Some status) ''empty content''), w1)
                      else (Inr \<lparr>path = p, buffer = body, contentType = ct\<rparr>,
                            w1\<lparr>files := (files w1)(p \<mapsto> \<lparr>content = body, ctype = ct\<rparr>)\<rparr>)))"

text \<open>
  A short hash: the digests have a bounded length, as the 8 to 12 hexadecimal
  characters of section 4.1 do.
\<close>

definition short_hash :: "(string \<Rightarrow> string) \<Rightarrow> bool" where
  "short_hash h = (\<exists>n. \<forall>url. length (h url) \<le> n)"

section \<open>Playback coordinator (\<open>lib/audio.ts\<close>)\<close>

record manager =
  sampleId :: "string option"
  tempPath :: "string option"
  listeners :: "nat list"

definition new_manager :: manager where
  "new_manager = \<lparr>sampleId = None, tempPath = None, listeners = []\<rparr>"

text \<open>
  The process: the static \<open>instance\<close> field of the class and the world. A listener is
  known by a number; calling it with a sample id is an entry of \<open>notified\<close>.
\<close>

record proc =
  instance_slot :: "manager option"
  os :: world

definition getInstance :: "proc \<Rightarrow> manager \<times> proc" where
  "getInstance s =
     (case instance_slot s of
        None \<Rightarrow> (new_manager, s\<lparr>instance_slot := Some new_manager\<rparr>)
      | Some m \<Rightarrow> (m, s))"

definition notifyListeners :: "manager \<times> world \<Rightarrow> manager \<times> world" where
  "notifyListeners mw =
     (case mw of (m, w) \<Rightarrow>
        (m, w\<lparr>notified := notified w @ map (\<lambda>l. (l, sampleId m)) (listeners m)\<rparr>))"

definition subscribe :: "nat \<Rightarrow> manager \<times> world \<Rightarrow> manager \<times> world" where
  "subscribe l mw =
     (case mw of (m, w) \<Rightarrow>
        (m\<lparr>listeners := (if l \<in> set (listeners m) then listeners m else listeners m @ [l])\<rparr>,
         w\<lparr>notified := notified w @ [(l, sampleId m)]\<rparr>))"

definition unsubscribe :: "nat \<Rightarrow> manager \<Rightarrow> manager" where
  "unsubscribe l m = m\<lparr>listeners := removeAll l (listeners m)\<rparr>"

definition setPlayingState :: "string option \<Rightarrow> string option \<Rightarrow> manager \<times> world \<Rightarrow> manager \<times> world" where
  "setPlayingState sid tp mw =
     (case mw of (m, w) \<Rightarrow> notifyListeners (m\<lparr>sampleId := sid, tempPath := tp\<rparr>, w))"

definition cleanup :: "env \<Rightarrow> manager \<times> world \<Rightarrow> manager \<times> world" where
  "cleanup e mw =
     (case mw of (m, w) \<Rightarrow>
        (let (m1, w1) =
               (case tempPath m of
                  None \<Rightarrow> (m, w)
                | Some p \<Rightarrow>
                    if p = [] then (m, w)
                    else (m\<lparr>tempPath := None\<rparr>,
                          if existsSync w p then snd (unlinkSync e p w) else w))
         in notifyListeners (m1\<lparr>sampleId := None\<rparr>, w1)))"

definition destroy :: "env \<Rightarrow> manager \<times> world \<Rightarrow> manager \<times> world" where
  "destroy e mw = (case cleanup e mw of (m, w) \<Rightarrow> (m\<lparr>listeners := []\<rparr>, w))"

definition nl :: string where
  "nl = [CHR 0x0A]"

definition dq :: string where
  "dq = [CHR 0x22]"

definition stopScript :: string where
  "stopScript =
     ''tell application '' @ dq @ ''QuickTime Player'' @ dq @ nl @
     ''      if (count of documents) > 0 then'' @ nl @
     ''        close front document'' @ nl @
     ''      end if'' @ nl @
     ''    end tell''"

definition sanitizePath :: "string \<Rightarrow> string" where
  "sanitizePath p = concat (map (\<lambda>c. if c = CHR 0x22 then [CHR 0x5C, CHR 0x22] else [c]) p)"

definition playScript :: "string \<Rightarrow> string" where
  "playScript filePath =
     ''tell application '' @ dq @ ''QuickTime Player'' @ dq @ nl @
     ''        activate'' @ nl @
     ''        open POSIX file '' @ dq @ sanitizePath filePath @ dq @ nl @
     ''        set theMovie to front document'' @ nl @
     ''        set looping of theMovie to true'' @ nl @
     ''        play theMovie'' @ nl @
     ''      end tell''"

text \<open>
  A method of the singleton, applied to the process: the manager is fetched through
  \<open>getInstance\<close> and the mutated object is what the static field refers to afterwards.
\<close>

definition with_manager :: "(manager \<times> world \<Rightarrow> manager \<times> world) \<Rightarrow> proc \<Rightarrow> proc" where
  "with_manager f s =
     (case getInstance s of (m, s1) \<Rightarrow>
        (case f (m, os s1) of (m2, w2) \<Rightarrow> s1\<lparr>instance_slot := Some m2, os := w2\<rparr>))"

definition current :: "proc \<Rightarrow> manager" where
  "current s = fst (getInstance s)"

definition getCurrentSampleId :: "proc \<Rightarrow> string option" where
  "getCurrentSampleId s = sampleId (current s)"

definition getCurrentTempPath :: "proc \<Rightarrow> string option" where
  "getCurrentTempPath s = tempPath (current s)"

text \<open>
  \<open>stopAudio\<close>, awaited without interruption. With a falsy sample id it returns at once.
  Otherwise the stop script runs inside \<open>try\<close>; a failure is caught and logged, and
  \<open>finally\<close> runs \<open>cleanup\<close>.
\<close>

definition stopAudio :: "env \<Rightarrow> proc \<Rightarrow> (error + unit) \<times> proc" where
  "stopAudio e s =
     (case getInstance s of (m, s1) \<Rightarrow>
        if \<not> truthy_str (sampleId m) then (Inr (), s1)
        else (case runAppleScript e stopScript (os s1) of (r, w1) \<Rightarrow>
                (case r of
                   Inl err \<Rightarrow> (Inr (), with_manager (cleanup e) (s1\<lparr>os := w1\<rparr>))
                 | Inr u \<Rightarrow> (Inr (), with_manager (cleanup e) (s1\<lparr>os := w1\<rparr>)))))"

text \<open>
  The operation \<open>playAudio\<close> hands to the queue: stop what is playing, resolve the file,
  publish the new state, start the player; on a failure after the stop, \<open>cleanup\<close> and
  rethrow.
\<close>

definition playOperation :: "env \<Rightarrow> string \<Rightarrow> string \<Rightarrow> string \<Rightarrow> proc \<Rightarrow> (error + unit) \<times> proc" where
  "playOperation e audioUrl sid sampleName s =
     (case stopAudio e s of
        (Inl err, s1) \<Rightarrow> (Inl err, s1)
      | (Inr u, s1) \<Rightarrow>
          (case getOrDownloadFile e audioUrl ''/tmp'' sampleName (os s1) of
             (Inl err, w2) \<Rightarrow> (Inl err, with_manager (cleanup e) (s1\<lparr>os := w2\<rparr>))
           | (Inr f, w2) \<Rightarrow>
               (let s3 = with_manager (setPlayingState (Some sid) (Some (path f))) (s1\<lparr>os := w2\<rparr>)
                in case runAppleScript e (playScript (path f)) (os s3) of
                     (Inl err, w4) \<Rightarrow> (Inl err, with_manager (cleanup e) (s3\<lparr>os := w4\<rparr>))
                   | (Inr v, w4) \<Rightarrow> (Inr (), s3\<lparr>os := w4\<rparr>))))"

text \<open>
  \<open>enqueuePlayback\<close> when the queue has settled and the caller awaits the result: the
  operation runs, and the \<open>catch\<close> chained on the promise that is returned turns a
  rejection into \<open>undefined\<close> (here \<open>None\<close>).
\<close>

definition enqueuePlayback ::
  "(proc \<Rightarrow> (error + 'a) \<times> proc) \<Rightarrow> proc \<Rightarrow> (error + 'a option) \<times> proc" where
  "enqueuePlayback operation s =
     (case operation s of
        (Inl err, s') \<Rightarrow> (Inr None, s')
      | (Inr v, s') \<Rightarrow> (Inr (Some v), s'))"

definition playAudio :: "env \<Rightarrow> string \<Rightarrow> string \<Rightarrow> string \<Rightarrow> proc \<Rightarrow> (error + unit) \<times> proc" where
  "playAudio e audioUrl sid sampleName s =
     (case getInstance s of (m, s0) \<Rightarrow>
        (case enqueuePlayback (playOperation e audioUrl sid sampleName) s0 of
           (Inl err, s') \<Rightarrow> (Inl err, s')
         | (Inr v, s') \<Rightarrow> (Inr (), s')))"

definition isPlaying :: "string \<Rightarrow> proc \<Rightarrow> bool" where
  "isPlaying sid s = (getCurrentSampleId s = Some sid)"

definition cleanupPlayback :: "env \<Rightarrow> proc \<Rightarrow> proc" where
  "cleanupPlayback e s = with_manager (destroy e) s"

definition init_world :: world where
  "init_world = \<lparr>files = Map.empty, scripts = [], fetches = [], notified = []\<rparr>"

definition init_proc :: proc where
  "init_proc = \<lparr>instance_slot = None, os = init_world\<rparr>"

text \<open>The requests a caller can make, each awaited before the next one is made.\<close>

datatype request =
    Play string string string
  | Stop
  | Subscribe nat
  | Unsubscribe nat
  | Cleanup
  | CleanupPlayback

fun perform :: "env \<Rightarrow> request \<Rightarrow> proc \<Rightarrow> proc" where
  "perform e (Play audioUrl sid sampleName) s = snd (playAudio e audioUrl sid sampleName s)"
| "perform e Stop s = snd (stopAudio e s)"
| "perform e (Subscribe l) s = with_manager (subscribe l) s"
| "perform e (Unsubscribe l) s = with_manager (\<lambda>(m, w). (unsubscribe l m, w)) s"
| "perform e Cleanup s = with_manager (cleanup e) s"
| "perform e CleanupPlayback s = cleanupPlayback e s"

definition perform_all :: "env \<Rightarrow> request list \<Rightarrow> proc \<Rightarrow> proc" where
  "perform_all e rs s = fold (perform e) rs s"

text \<open>
  Two worlds to run the operations in: one where everything succeeds, one where the
  network is down and the bridge fails. The toy digest prints the last four bytes of
  the URL in hexadecimal.
\<close>

definition env_ok :: env where
  "env_ok = \<lparr>bridge = (\<lambda>w script. None),
             http = (\<lambda>w url. HttpResponse 200 ''OK'' ''audio/mp4'' ''RIFFdata''),
             unlink_error = (\<lambda>w p. None),
             urlHash = (\<lambda>url. concat (map hex_byte (take 4 (rev url))))\<rparr>"

definition env_down :: env where
  "env_down = \<lparr>bridge = (\<lambda>w script. Some (Error ''QuickTime Player got an error'')),
               http = (\<lambda>w url. NetworkFailure ''fetch failed''),
               unlink_error = (\<lambda>w p. Some (Error ''EPERM'')),
               urlHash = (\<lambda>url. concat (map hex_byte (take 4 (rev url))))\<rparr>"

definition env_mute :: env where
  "env_mute = env_ok\<lparr>bridge := (\<lambda>w script. Some (Error ''QuickTime Player got an error''))\<rparr>"

text \<open>The process once the sample ``Alpha'' has been started and is playing.\<close>

definition playing_alpha :: proc where
  "playing_alpha = snd (playAudio env_ok ''https://x/a.m4a'' ''a'' ''Alpha'' init_proc)"

text \<open>The session invariant of the data model.\<close>

definition session_inv :: "manager \<Rightarrow> bool" where
  "session_inv m = ((tempPath m \<noteq> None) = (sampleId m \<noteq> None))"

definition session_ok :: "manager \<Rightarrow> bool" where
  "session_ok m = (session_inv m \<and> tempPath m \<noteq> Some [])"

definition sessions :: "proc \<Rightarrow> (string \<times> path) list" where
  "sessions s =
     (case instance_slot s of
        None \<Rightarrow> []
      | Some m \<Rightarrow> (case (sampleId m, tempPath m) of (Some i, Some p) \<Rightarrow> [(i, p)] | _ \<Rightarrow> []))"

section \<open>Playback requests that are not awaited\<close>

text \<open>
  When callers do not await, the asynchronous functions run in segments that end at an
  \<open>await\<close> of the bridge or of the download. \<open>playbackQueue\<close> is a promise chain:
  \<open>enqueuePlayback\<close> chains the operation behind everything chained before, so an
  operation starts once all earlier ones have settled, whatever their outcome (the
  \<open>catch\<close> turns a rejection into a fulfilment). The chain is kept here as the
  operations not yet started (\<open>pending\<close>) and the one in flight (\<open>running\<close>).
  \<open>stopAudio\<close> called directly does not go through \<open>enqueuePlayback\<close>; the number of
  such calls waiting for their stop script is \<open>stopping\<close>.
\<close>

type_synonym play_req = "string \<times> string \<times> string"

datatype op_pc =
    OpStopping nat play_req
  | OpDownloading nat play_req
  | OpStarting nat play_req path

datatype obs =
    Enqueued nat play_req
  | Started nat
  | OpScript nat string
  | Finished nat "error option"
  | StopCalled bool
  | StopSettled
  | TornDown

datatype event =
    CallPlay string string string
  | CallStop
  | CallCleanupPlayback
  | Dequeue
  | ResumeOp
  | ResumeStop

record sys =
  process :: proc
  pending :: "(nat \<times> play_req) list"
  running :: "op_pc option"
  stopping :: nat
  issued :: nat
  trace :: "obs list"

definition init_sys :: sys where
  "init_sys = \<lparr>process = init_proc, pending = [], running = None, stopping = 0, issued = 0,
               trace = []\<rparr>"

fun ticket :: "op_pc \<Rightarrow> nat" where
  "ticket (OpStopping k r) = k"
| "ticket (OpDownloading k r) = k"
| "ticket (OpStarting k r p) = k"

text \<open>
  One segment. \<open>CallPlay\<close>: \<open>playAudio\<close> up to its \<open>await\<close>, the operation is chained.
  \<open>CallStop\<close>: \<open>stopAudio\<close> up to its \<open>await\<close>. \<open>Dequeue\<close>: the chain reaches the next
  operation, which runs up to its first \<open>await\<close> (the stop script when something is
  playing, else the download). \<open>ResumeOp\<close>: the \<open>await\<close> of the operation in flight
  settles. \<open>ResumeStop\<close>: the stop script of a direct \<open>stopAudio\<close> settles. An event that
  cannot happen in the state gives \<open>None\<close>. The download is taken as one segment, run
  when its \<open>await\<close> settles.
\<close>

fun step :: "env \<Rightarrow> event \<Rightarrow> sys \<Rightarrow> sys option" where
  "step e (CallPlay audioUrl sid sampleName) s =
     Some (s\<lparr>process := snd (getInstance (process s)),
             pending := pending s @ [(issued s, (audioUrl, sid, sampleName))],
             issued := Suc (issued s),
             trace := trace s @ [Enqueued (issued s) (audioUrl, sid, sampleName)]\<rparr>)"
| "step e CallStop s =
     (case getInstance (process s) of (m, p1) \<Rightarrow>
        if \<not> truthy_str (sampleId m)
        then Some (s\<lparr>process := p1, trace := trace s @ [StopCalled False]\<rparr>)
        else Some (s\<lparr>process := p1\<lparr>os := bridge_call stopScript (os p1)\<rparr>,
                     stopping := Suc (stopping s),
                     trace := trace s @ [StopCalled True]\<rparr>))"
| "step e CallCleanupPlayback s =
     Some (s\<lparr>process := cleanupPlayback e (process s), trace := trace s @ [TornDown]\<rparr>)"
| "step e Dequeue s =
     (case running s of
        Some pc \<Rightarrow> None
      | None \<Rightarrow>
          (case pending s of
             [] \<Rightarrow> None
           | (k, r) # rest \<Rightarrow>
               (case getInstance (process s) of (m, p1) \<Rightarrow>
                  if \<not> truthy_str (sampleId m)
                  then Some (s\<lparr>process := p1, pending := rest,
                               running := Some (OpDownloading k r),
                               trace := trace s @ [Started k]\<rparr>)
                  else Some (s\<lparr>process := p1\<lparr>os := bridge_call stopScript (os p1)\<rparr>,
                               pending := rest,
                               running := Some (OpStopping k r),
                               trace := trace s @ [Started k, OpScript k stopScript]\<rparr>))))"
| "step e ResumeOp s =
     (case running s of
        None \<Rightarrow> None
      | Some (OpStopping k r) \<Rightarrow>
          Some (s\<lparr>process := with_manager (cleanup e) (process s),
                  running := Some (OpDownloading k r)\<rparr>)
      | Some (OpDownloading k r) \<Rightarrow>
          (case r of (audioUrl, sid, sampleName) \<Rightarrow>
             (case getOrDownloadFile e audioUrl ''/tmp'' sampleName (os (process s)) of
                (Inl err, w2) \<Rightarrow>
                  Some (s\<lparr>process := with_manager (cleanup e) ((process s)\<lparr>os := w2\<rparr>),
                          running := None,
                          trace := trace s @ [Finished k (Some err)]\<rparr>)
              | (Inr f, w2) \<Rightarrow>
                  (let p3 = with_manager (setPlayingState (Some sid) (Some (path f)))
                              ((process s)\<lparr>os := w2\<rparr>)
                   in Some (s\<lparr>process := p3\<lparr>os := bridge_call (playScript (path f)) (os p3)\<rparr>,
                              running := Some (OpStarting k r (path f)),
                              trace := trace s @ [OpScript k (playScript (path f))]\<rparr>))))
      | Some (OpStarting k r filePath) \<Rightarrow>
          (case bridge_result e (playScript filePath) (os (process s)) of
             Inl err \<Rightarrow>
               Some (s\<lparr>process := with_manager (cleanup e) (process s),
                       running := None,
                       trace := trace s @ [Finished k (Some err)]\<rparr>)
           | Inr u \<Rightarrow>
               Some (s\<lparr>running := None, trace := trace s @ [Finished k None]\<rparr>)))"
| "step e ResumeStop s =
     (if stopping s = 0 then None
      else Some (s\<lparr>process := with_manager (cleanup e) (process s),
                   stopping := stopping s - 1,
                   trace := trace s @ [StopSettled]\<rparr>))"

fun run :: "env \<Rightarrow> event list \<Rightarrow> sys \<Rightarrow> sys option" where
  "run e [] s = Some s"
| "run e (ev # evs) s = (case step e ev s of None \<Rightarrow> None | Some s' \<Rightarrow> run e evs s')"

text \<open>The event that lets the queue advance, if there is one.\<close>

definition next_event :: "sys \<Rightarrow> event option" where
  "next_event s =
     (if running s \<noteq> None then Some ResumeOp
      else if pending s \<noteq> [] then Some Dequeue
      else None)"

fun pc_rank :: "op_pc option \<Rightarrow> nat" where
  "pc_rank None = 0"
| "pc_rank (Some (OpStopping k r)) = 3"
| "pc_rank (Some (OpDownloading k r)) = 2"
| "pc_rank (Some (OpStarting k r p)) = 1"

definition work_left :: "sys \<Rightarrow> nat" where
  "work_left s = 4 * length (pending s) + pc_rank (running s)"

text \<open>
  Reading the trace: which operation is in flight after it (\<open>None\<close> when two operations
  overlapped somewhere), and the tickets in the order they were enqueued, started and
  finished.
\<close>

fun track :: "obs \<Rightarrow> nat option option \<Rightarrow> nat option option" where
  "track ob None = None"
| "track (Started k) (Some cur) = (if cur = None then Some (Some k) else None)"
| "track (OpScript k sc) (Some cur) = (if cur = Some k then Some cur else None)"
| "track (Finished k err) (Some cur) = (if cur = Some k then Some None else None)"
| "track ob (Some cur) = Some cur"

definition in_flight :: "obs list \<Rightarrow> nat option option" where
  "in_flight tr = fold track tr (Some None)"

definition serial :: "obs list \<Rightarrow> bool" where
  "serial tr = (in_flight tr \<noteq> None)"

fun enqueued :: "obs list \<Rightarrow> nat list" where
  "enqueued [] = []"
| "enqueued (Enqueued k r # tr) = k # enqueued tr"
| "enqueued (ob # tr) = enqueued tr"

fun started :: "obs list \<Rightarrow> nat list" where
  "started [] = []"
| "started (Started k # tr) = k # started tr"
| "started (ob # tr) = started tr"

fun finished :: "obs list \<Rightarrow> nat list" where
  "finished [] = []"
| "finished (Finished k err # tr) = k # finished tr"
| "finished (ob # tr) = finished tr"

text \<open>The scripts handed to the bridge, as the trace tells them.\<close>

fun bridge_calls :: "obs list \<Rightarrow> string list" where
  "bridge_calls [] = []"
| "bridge_calls (OpScript k sc # tr) = sc # bridge_calls tr"
| "bridge_calls (StopCalled True # tr) = stopScript # bridge_calls tr"
| "bridge_calls (ob # tr) = bridge_calls tr"

text \<open>
  The bookkeeping that ties the trace to the queue: tickets are handed out in the order
  of the calls, the operations started are the first tickets, the rest waits in
  \<open>pending\<close> in ticket order, and all started operations but the one in flight have
  finished.
\<close>

definition queue_inv :: "sys \<Rightarrow> bool" where
  "queue_inv s =
     (enqueued (trace s) = [0..<issued s]
      \<and> started (trace s) @ map fst (pending s) = [0..<issued s]
      \<and> in_flight (trace s) = Some (map_option ticket (running s))
      \<and> finished (trace s) @ (case running s of None \<Rightarrow> [] | Some pc \<Rightarrow> [ticket pc])
          = started (trace s))"

text \<open>
  No overlap, seen from the start of an operation: every operation with a smaller
  ticket has finished before, and none of its scripts comes after.
\<close>

definition ordered :: "obs list \<Rightarrow> bool" where
  "ordered tr =
     (\<forall>pre b post a. tr = pre @ Started b # post \<and> a < b \<longrightarrow>
        a \<in> set (finished pre) \<and> (\<forall>sc. OpScript a sc \<notin> set post))"

text \<open>
  Letting the queue run with nothing else happening: the operation in flight is resumed,
  then the next one is dequeued, until none is left. Each segment lowers \<open>work_left\<close>.
\<close>

function drain :: "env \<Rightarrow> sys \<Rightarrow> sys" where
  "drain e s =
     (case next_event s of
        None \<Rightarrow> s
      | Some ev \<Rightarrow> (case step e ev s of None \<Rightarrow> s | Some s' \<Rightarrow> drain e s'))"
  by pat_completeness auto
termination
proof (relation "measure (\<lambda>(e, s). work_left s)")
  show "wf (measure (\<lambda>(e, s). work_left s))" by simp
next
  fix e :: env and s ev s'
  assume "next_event s = Some ev" and "step e ev s = Some s'"
  then have "work_left s' < work_left s"
    by (auto simp add: next_event_def work_left_def Let_def
          split: if_splits option.splits list.splits op_pc.splits prod.splits sum.splits)
  then show "((e, s'), (e, s)) \<in> measure (\<lambda>(e, s). work_left s)" by simp
qed

text \<open>
  Concrete runs. Two plays called back to back with the network down, run until the
  second operation has started; a play followed at once by a direct stop; a direct stop
  while the play operation waits for the player.
\<close>

definition alpha :: play_req where
  "alpha = (''https://x/a.m4a'', ''a'', ''Alpha'')"

definition beta :: play_req where
  "beta = (''https://x/b.m4a'', ''b'', ''Beta'')"

definition two_plays_offline :: "sys option" where
  "two_plays_offline =
     run env_down
       [CallPlay ''https://x/a.m4a'' ''a'' ''Alpha'', CallPlay ''https://x/b.m4a'' ''b'' ''Beta'',
        Dequeue, ResumeOp, Dequeue] init_sys"

definition play_then_stop :: "sys option" where
  "play_then_stop = run env_ok [CallPlay ''https://x/a.m4a'' ''a'' ''Alpha'', CallStop] init_sys"

definition stop_during_start :: "sys option" where
  "stop_during_start =
     run env_ok [CallPlay ''https://x/a.m4a'' ''a'' ''Alpha'', Dequeue, ResumeOp, CallStop] init_sys"

section \<open>Drag-and-drop preparation (\<open>search-samples.tsx\<close>, \<open>prepareFiles\<close>)\<close>

record sample =
  sample_id :: string
  sample_name :: string
  sample_url :: string
  bpm :: "nat option"

text \<open>
  What \<open>prepareFiles\<close> does for one sample (the callback it maps over the samples). A
  file already at the expected path with content is returned as it is; otherwise
  \<open>getOrDownloadFile\<close> is awaited and the file it names is checked again. Every
  exception ends in \<open>null\<close>.
\<close>

definition prepareSample :: "env \<Rightarrow> sample \<Rightarrow> world \<Rightarrow> (string \<times> path) option \<times> world" where
  "prepareSample e smp w =
     (let expectedPath = getExpectedFilePath e (sample_url smp) (sample_name smp) None ''/tmp''
      in if existsSync w expectedPath \<and> statSize w expectedPath > 0
         then (Some (sample_id smp, expectedPath), w)
         else (case getOrDownloadFile e (sample_url smp) ''/tmp'' (sample_name smp) w of
                 (Inl err, w1) \<Rightarrow> (None, w1)
               | (Inr f, w1) \<Rightarrow>
                   if existsSync w1 (path f)
                   then (if statSize w1 (path f) > 0 then (Some (sample_id smp, path f), w1)
                         else (None, w1))
                   else (None, w1)))"

section \<open>Persisted configuration (\<open>lib/storage.ts\<close>) and API client (\<open>lib/soundraw.ts\<close>)\<close>

text \<open>
  What \<open>JSON.parse\<close> returns. Numbers are kept as integers: the program only tests them
  for truthiness and prints them.
\<close>

datatype json =
    JNull
  | JBool bool
  | JNum int
  | JStr string
  | JArr "json list"
  | JObj "(string \<times> json) list"

record request_info =
  req_url :: string
  req_headers :: "(string \<times> string) list"

record api_world =
  storage :: "string option"
  requests :: "request_info list"

datatype fetch_result =
    FetchRejected error
  | FetchResponse nat string "error + json"

text \<open>
  \<open>JSON.parse\<close> (\<open>None\<close> is its SyntaxError) and the network are parameters.
\<close>

record api_env =
  json_parse :: "string \<Rightarrow> json option"
  fetch :: "api_world \<Rightarrow> request_info \<Rightarrow> fetch_result"

record StoredState =
  soundrawConfig :: "json option"

text \<open>
  Reading a property of a parsed value: \<open>null\<close> throws a TypeError, an object looks the
  key up, and the keys read here (\<open>soundrawConfig\<close>, \<open>token\<close>, \<open>apiBaseUrl\<close>) are
  properties of no other kind of value.
\<close>

fun get_prop :: "json \<Rightarrow> string \<Rightarrow> error + json option" where
  "get_prop JNull k = Inl (TypeError ''Cannot read properties of null'')"
| "get_prop (JObj kvs) k = Inr (map_of kvs k)"
| "get_prop v k = Inr None"

text \<open>Optional chaining \<open>config?.key\<close>.\<close>

fun opt_prop :: "json option \<Rightarrow> string \<Rightarrow> json option" where
  "opt_prop None k = None"
| "opt_prop (Some JNull) k = None"
| "opt_prop (Some (JObj kvs)) k = map_of kvs k"
| "opt_prop (Some v) k = None"

definition readState :: "api_env \<Rightarrow> api_world \<Rightarrow> error + StoredState" where
  "readState e w =
     (case storage w of
        None \<Rightarrow> Inr \<lparr>soundrawConfig = None\<rparr>
      | Some raw \<Rightarrow>
          if raw = [] then Inr \<lparr>soundrawConfig = None\<rparr>
          else (case (case json_parse e raw of
                        None \<Rightarrow> Inl (Error ''SyntaxError'')
                      | Some parsed \<Rightarrow>
                          (case get_prop parsed ''soundrawConfig'' of
                             Inl err \<Rightarrow> Inl err
                           | Inr c \<Rightarrow> Inr \<lparr>soundrawConfig = c\<rparr>))
                of Inl err \<Rightarrow> Inr \<lparr>soundrawConfig = None\<rparr>
                 | Inr st \<Rightarrow> Inr st))"

definition getSoundrawConfig :: "api_env \<Rightarrow> api_world \<Rightarrow> error + json option" where
  "getSoundrawConfig e w =
     (case readState e w of Inl err \<Rightarrow> Inl err | Inr st \<Rightarrow> Inr (soundrawConfig st))"

definition getSoundrawToken :: "api_env \<Rightarrow> api_world \<Rightarrow> error + json option" where
  "getSoundrawToken e w =
     (case getSoundrawConfig e w of Inl err \<Rightarrow> Inl err | Inr c \<Rightarrow> Inr (opt_prop c ''token''))"

definition getSoundrawApiBaseUrl :: "api_env \<Rightarrow> api_world \<Rightarrow> error + json option" where
  "getSoundrawApiBaseUrl e w =
     (case getSoundrawConfig e w of Inl err \<Rightarrow> Inl err | Inr c \<Rightarrow> Inr (opt_prop c ''apiBaseUrl''))"

text \<open>Truthiness of a value that may be \<open>undefined\<close>.\<close>

fun truthy :: "json option \<Rightarrow> bool" where
  "truthy None = False"
| "truthy (Some JNull) = False"
| "truthy (Some (JBool b)) = b"
| "truthy (Some (JNum n)) = (n \<noteq> 0)"
| "truthy (Some (JStr s)) = (s \<noteq> [])"
| "truthy (Some v) = True"

text \<open>
  Decimal printing, as \<open>Number.prototype.toString\<close> prints an integer of magnitude
  below \<open>10^21\<close>; larger numbers (printed with an exponent) and fractions are outside
  the model.
\<close>

fun show_nat :: "nat \<Rightarrow> string" where
  "show_nat n = (if n < 10 then [char_of (48 + n)] else show_nat (n div 10) @ [char_of (48 + n mod 10)])"

definition show_int :: "int \<Rightarrow> string" where
  "show_int i = (if i < 0 then CHR ''-'' # show_nat (nat (- i)) else show_nat (nat i))"

definition join :: "string \<Rightarrow> string list \<Rightarrow> string" where
  "join sep xs = (case xs of [] \<Rightarrow> [] | y # ys \<Rightarrow> y @ concat (map (\<lambda>z. sep @ z) ys))"

text \<open>String conversion of a value inside a template literal.\<close>

fun js_string :: "json \<Rightarrow> string" where
  "js_string JNull = ''null''"
| "js_string (JBool b) = (if b then ''true'' else ''false'')"
| "js_string (JNum n) = show_int n"
| "js_string (JStr s) = s"
| "js_string (JArr vs) = join '','' (map (\<lambda>v. if v = JNull then [] else js_string v) vs)"
| "js_string (JObj kvs) = ''[object Object]''"

definition error_message :: "error \<Rightarrow> string" where
  "error_message err =
     (case err of
        Error m \<Rightarrow> m
      | TypeError m \<Rightarrow> m
      | SoundrawAPIError m st \<Rightarrow> m
      | DownloadError st m \<Rightarrow> m
      | NonError v \<Rightarrow> ''Unknown error'')"

text \<open>
  \<open>makeRequest\<close> with the default \<open>options\<close>, as both callers use it: the token and
  the base URL are read and checked, then the request is sent; every failure leaves as
  a \<open>SoundrawAPIError\<close>.
\<close>

definition makeRequest :: "api_env \<Rightarrow> string \<Rightarrow> api_world \<Rightarrow> (error + json) \<times> api_world" where
  "makeRequest e endpoint w =
     (case getSoundrawToken e w of
        Inl err \<Rightarrow> (Inl err, w)
      | Inr token \<Rightarrow>
     (case getSoundrawApiBaseUrl e w of
        Inl err \<Rightarrow> (Inl err, w)
      | Inr apiBaseUrl \<Rightarrow>
          if \<not> truthy token
          then (Inl (SoundrawAPIError ''No API token found. Please set up your token first.'' None), w)
          else if \<not> truthy apiBaseUrl
          then (Inl (SoundrawAPIError
                  ''No API base URL found. Please set up your configuration first.'' None), w)
          else (let url = js_string (the apiBaseUrl) @ endpoint;
                    headers = [(''Content-Type'', ''application/json''),
                               (''Authorization'', ''Bearer '' @ js_string (the token))];
                    rq = \<lparr>req_url = url, req_headers = headers\<rparr>;
                    w1 = w\<lparr>requests := requests w @ [rq]\<rparr>
                in case fetch e w1 rq of
                     FetchRejected err \<Rightarrow>
                       (case err of
                          SoundrawAPIError m st \<Rightarrow> (Inl err, w1)
                        | _ \<Rightarrow> (Inl (SoundrawAPIError (''Network error: '' @ error_message err) None), w1))
                   | FetchResponse status statusText body \<Rightarrow>
                       if \<not> (200 \<le> status \<and> status < 300)
                       then (Inl (SoundrawAPIError
                               (''API request failed: '' @ show_nat status @ '' '' @ statusText)
                               (Some status)), w1)
                       else (case body of
                               Inl err \<Rightarrow>
                                 (case err of
                                    SoundrawAPIError m st \<Rightarrow> (Inl err, w1)
                                  | _ \<Rightarrow> (Inl (SoundrawAPIError
                                            (''Network error: '' @ error_message err) None), w1))
                             | Inr v \<Rightarrow> (Inr v, w1)))))"

record SearchSamplesRequest =
  genres :: "string list option"
  page :: "int option"
  limit :: "int option"

text \<open>\<open>URLSearchParams.toString\<close>: form encoding of each key and value, joined by \<open>&\<close>.\<close>

definition form_encode :: "string \<Rightarrow> string" where
  "form_encode s =
     concat (map (\<lambda>c. let n = of_char c :: nat
                      in if (48 \<le> n \<and> n \<le> 57) \<or> (65 \<le> n \<and> n \<le> 90) \<or> (97 \<le> n \<and> n \<le> 122)
                            \<or> c \<in> set ''*-._''
                         then [c]
                         else if c = CHR '' '' then ''+''
                         else CHR ''%'' # hex_byte c) s)"

definition query_string :: "(string \<times> string) list \<Rightarrow> string" where
  "query_string ps = join ''&'' (map (\<lambda>(k, v). form_encode k @ ''='' @ form_encode v) ps)"

definition searchSamples ::
  "api_env \<Rightarrow> SearchSamplesRequest \<Rightarrow> api_world \<Rightarrow> (error + json) \<times> api_world" where
  "searchSamples e params w =
     (let queryParams =
            (case genres params of
               None \<Rightarrow> []
             | Some gs \<Rightarrow> map (\<lambda>g. (''genres[]'', g)) gs)
            @ (case page params of
                 None \<Rightarrow> []
               | Some n \<Rightarrow> if n \<noteq> 0 then [(''page'', show_int n)] else [])
            @ (case limit params of
                 None \<Rightarrow> []
               | Some n \<Rightarrow> if n \<noteq> 0 then [(''limit'', show_int n)] else []);
          qs = query_string queryParams;
          endpoint = ''/beats'' @ (if qs \<noteq> [] then ''?'' @ qs else [])
      in makeRequest e endpoint w)"

definition getAvailableGenres :: "api_env \<Rightarrow> api_world \<Rightarrow> (error + json) \<times> api_world" where
  "getAvailableGenres e w = makeRequest e ''/tags'' w"

text \<open>
  A stand-in for \<open>JSON.parse\<close> that knows two documents (written here without their
  quotation marks) and rejects everything else, with a server that answers 200.
\<close>

definition api_env_ok :: api_env where
  "api_env_ok =
     \<lparr>json_parse =
        (\<lambda>raw. if raw = ''{soundrawConfig:{token:t0,apiBaseUrl:https://api.example/v4}}''
               then Some (JObj [(''soundrawConfig'',
                                 JObj [(''token'', JStr ''t0''),
                                       (''apiBaseUrl'', JStr ''https://api.example/v4'')])])
               else if raw = ''{soundrawConfig:{apiBaseUrl:https://api.example/v4}}''
               then Some (JObj [(''soundrawConfig'',
                                 JObj [(''apiBaseUrl'', JStr ''https://api.example/v4'')])])
               else None),
      fetch = (\<lambda>w rq. FetchResponse 200 ''OK'' (Inr (JObj [(''samples'', JArr [])])))\<rparr>"

definition no_storage :: api_world where
  "no_storage = \<lparr>storage = None, requests = []\<rparr>"

definition corrupt_storage :: api_world where
  "corrupt_storage = \<lparr>storage = Some ''{soundrawConfig:'', requests = []\<rparr>"

definition tokenless_storage :: api_world where
  "tokenless_storage =
     \<lparr>storage = Some ''{soundrawConfig:{apiBaseUrl:https://api.example/v4}}'', requests = []\<rparr>"




text \<open>A scratch directory holding a zero-length file where ``Alpha'' is expected.\<close>

definition alpha_path :: path where
  "alpha_path = getExpectedFilePath env_ok ''https://x/a.m4a'' ''Alpha'' None ''/tmp''"

definition empty_cached :: world where
  "empty_cached = init_world\<lparr>files := [alpha_path \<mapsto> \<lparr>content = [], ctype = ''audio/mp4''\<rparr>]\<rparr>"

section \<open>Properties of the playback coordinator\<close>

subsection \<open>The singleton\<close>

lemma getInstance_current [simp]: "fst (getInstance s) = current s"
  by (simp add: current_def)

lemma getInstance_slot [simp]: "instance_slot (snd (getInstance s)) = Some (current s)"
  unfolding getInstance_def current_def by (simp split: option.splits)

lemma getInstance_os [simp]: "os (snd (getInstance s)) = os s"
  by (simp add: getInstance_def split: option.splits)

lemma current_getInstance [simp]: "current (snd (getInstance s)) = current s"
  unfolding getInstance_def current_def by (simp split: option.splits)

lemma current_os_update [simp]: "current (s\<lparr>os := w\<rparr>) = current s"
  unfolding getInstance_def current_def by (simp split: option.splits)

lemma current_slot_update [simp]: "current (s\<lparr>instance_slot := Some m\<rparr>) = m"
  unfolding getInstance_def current_def by simp

lemma with_manager_current [simp]: "current (with_manager f s) = fst (f (current s, os s))"
  unfolding with_manager_def current_def getInstance_def
  by (cases "instance_slot s") (simp_all add: split_beta)

lemma with_manager_os [simp]: "os (with_manager f s) = snd (f (current s, os s))"
  unfolding with_manager_def current_def getInstance_def
  by (cases "instance_slot s") (simp_all add: split_beta)

lemma with_manager_slot [simp]: "instance_slot (with_manager f s) = Some (fst (f (current s, os s)))"
  unfolding with_manager_def current_def getInstance_def
  by (cases "instance_slot s") (simp_all add: split_beta)

lemma getInstance_eq: "getInstance s = (current s, snd (getInstance s))"
  by (simp add: current_def del: getInstance_current)

subsection \<open>notifyListeners, setPlayingState, cleanup\<close>

lemma notifyListeners_fst [simp]: "fst (notifyListeners (m, w)) = m"
  by (simp add: notifyListeners_def)

lemma notifyListeners_world [simp]:
  "files (snd (notifyListeners (m, w))) = files w"
  "scripts (snd (notifyListeners (m, w))) = scripts w"
  "fetches (snd (notifyListeners (m, w))) = fetches w"
  "notified (snd (notifyListeners (m, w))) = notified w @ map (\<lambda>l. (l, sampleId m)) (listeners m)"
  by (simp_all add: notifyListeners_def)

lemma setPlayingState_fst [simp]:
  "fst (setPlayingState sid tp (m, w)) = m\<lparr>sampleId := sid, tempPath := tp\<rparr>"
  by (simp add: setPlayingState_def)

lemma setPlayingState_world [simp]:
  "files (snd (setPlayingState sid tp (m, w))) = files w"
  "scripts (snd (setPlayingState sid tp (m, w))) = scripts w"
  "fetches (snd (setPlayingState sid tp (m, w))) = fetches w"
  "notified (snd (setPlayingState sid tp (m, w))) = notified w @ map (\<lambda>l. (l, sid)) (listeners m)"
  by (simp_all add: setPlayingState_def)

lemma unlinkSync_world [simp]:
  "scripts (snd (unlinkSync e p w)) = scripts w"
  "fetches (snd (unlinkSync e p w)) = fetches w"
  "notified (snd (unlinkSync e p w)) = notified w"
  by (simp_all add: unlinkSync_def split: option.splits)

lemma unlinkSync_files:
  "files (snd (unlinkSync e p w)) = (if unlink_error e w p = None then (files w)(p := None) else files w)"
  by (auto simp add: unlinkSync_def split: option.splits)

lemma cleanup_sampleId [simp]: "sampleId (fst (cleanup e (m, w))) = None"
  by (simp add: cleanup_def Let_def split: option.splits prod.splits)

lemma cleanup_listeners [simp]: "listeners (fst (cleanup e (m, w))) = listeners m"
  by (auto simp add: cleanup_def Let_def split: option.splits prod.splits if_splits)

lemma cleanup_tempPath:
  "tempPath (fst (cleanup e (m, w))) = (if tempPath m = Some [] then Some [] else None)"
  by (auto simp add: cleanup_def Let_def split: option.splits prod.splits if_splits)

lemma cleanup_world [simp]:
  "scripts (snd (cleanup e (m, w))) = scripts w"
  "fetches (snd (cleanup e (m, w))) = fetches w"
  "notified (snd (cleanup e (m, w))) = notified w @ map (\<lambda>l. (l, None)) (listeners m)"
  by (auto simp add: cleanup_def Let_def split: option.splits prod.splits if_splits)

lemma cleanup_files:
  "files (snd (cleanup e (m, w))) =
     (case tempPath m of
        None \<Rightarrow> files w
      | Some p \<Rightarrow> if p \<noteq> [] \<and> unlink_error e w p = None then (files w)(p := None) else files w)"
  by (auto simp add: cleanup_def Let_def existsSync_def unlinkSync_files split: option.splits prod.splits if_splits)

lemma cleanup_session_ok: "tempPath m \<noteq> Some [] \<Longrightarrow> session_ok (fst (cleanup e (m, w)))"
  by (simp add: session_ok_def session_inv_def cleanup_tempPath)

lemma destroy_fields [simp]:
  "sampleId (fst (destroy e (m, w))) = None"
  "listeners (fst (destroy e (m, w))) = []"
  "tempPath (fst (destroy e (m, w))) = (if tempPath m = Some [] then Some [] else None)"
  "snd (destroy e (m, w)) = snd (cleanup e (m, w))"
  by (simp_all add: destroy_def cleanup_tempPath split: prod.splits)
     (metis cleanup_sampleId cleanup_tempPath fst_conv)+

subsection \<open>stopAudio\<close>

lemma stopAudio_idle:
  "\<not> truthy_str (sampleId (current s)) \<Longrightarrow> stopAudio e s = (Inr (), snd (getInstance s))"
  unfolding stopAudio_def by (subst getInstance_eq) simp

lemma stopAudio_active:
  "truthy_str (sampleId (current s)) \<Longrightarrow>
   stopAudio e s =
     (Inr (), with_manager (cleanup e) ((snd (getInstance s))\<lparr>os := bridge_call stopScript (os s)\<rparr>))"
  unfolding stopAudio_def
  by (subst getInstance_eq) (simp add: runAppleScript_def Let_def split: sum.splits)

lemma stopAudio_fst [simp]: "fst (stopAudio e s) = Inr ()"
  by (cases "truthy_str (sampleId (current s))") (simp_all add: stopAudio_idle stopAudio_active)

lemma stopAudio_sampleId:
  "sampleId (current (snd (stopAudio e s))) =
     (if truthy_str (sampleId (current s)) then None else sampleId (current s))"
  by (simp add: stopAudio_idle stopAudio_active)

lemma stopAudio_tempPath:
  "tempPath (current (snd (stopAudio e s))) =
     (if truthy_str (sampleId (current s)) \<and> tempPath (current s) \<noteq> Some [] then None
      else tempPath (current s))"
  by (cases "truthy_str (sampleId (current s))")
     (simp_all add: stopAudio_idle stopAudio_active cleanup_tempPath)

lemma stopAudio_listeners [simp]: "listeners (current (snd (stopAudio e s))) = listeners (current s)"
  by (cases "truthy_str (sampleId (current s))") (simp_all add: stopAudio_idle stopAudio_active)

lemma stopAudio_scripts:
  "scripts (os (snd (stopAudio e s))) =
     (if truthy_str (sampleId (current s)) then scripts (os s) @ [stopScript] else scripts (os s))"
  by (simp add: stopAudio_idle stopAudio_active bridge_call_def)

lemma stopAudio_fetches [simp]: "fetches (os (snd (stopAudio e s))) = fetches (os s)"
  by (cases "truthy_str (sampleId (current s))")
     (simp_all add: stopAudio_idle stopAudio_active bridge_call_def)

lemma stopAudio_session_ok:
  "session_ok (current s) \<Longrightarrow> session_ok (current (snd (stopAudio e s)))"
  by (auto simp add: session_ok_def session_inv_def stopAudio_sampleId stopAudio_tempPath truthy_str_def
           split: option.splits)

subsection \<open>the resolved path\<close>

lemma getExpectedFilePath_nonempty [simp]: "getExpectedFilePath e url name x dir \<noteq> []"
  by (simp add: getExpectedFilePath_def)

lemma getOrDownloadFile_path:
  "getOrDownloadFile e url dir name w = (Inr f, w') \<Longrightarrow> path f = getExpectedFilePath e url name None dir"
  by (auto simp add: getOrDownloadFile_def Let_def split: if_splits option.splits http_result.splits)

lemma getOrDownloadFile_scripts:
  "scripts (snd (getOrDownloadFile e url dir name w)) = scripts w"
  by (auto simp add: getOrDownloadFile_def Let_def split: if_splits option.splits http_result.splits)

lemma getOrDownloadFile_notified:
  "notified (snd (getOrDownloadFile e url dir name w)) = notified w"
  by (auto simp add: getOrDownloadFile_def Let_def split: if_splits option.splits http_result.splits)

subsection \<open>playOperation and playAudio\<close>

lemma playOperation_session_ok:
  "session_ok (current s) \<Longrightarrow> session_ok (current (snd (playOperation e url sid name s)))"
proof -
  assume ok: "session_ok (current s)"
  obtain s1 where s1: "stopAudio e s = (Inr (), s1)"
    by (metis stopAudio_fst prod.collapse)
  have ok1: "session_ok (current s1)"
    using stopAudio_session_ok [OF ok, of e] s1 by simp
  then have np: "tempPath (current s1) \<noteq> Some []"
    by (simp add: session_ok_def)
  show ?thesis
  proof (cases "getOrDownloadFile e url ''/tmp'' name (os s1)")
    case (Pair r w2)
    show ?thesis
    proof (cases r)
      case (Inl err)
      with Pair s1 np show ?thesis
        by (simp add: playOperation_def cleanup_session_ok)
    next
      case (Inr f)
      have pf: "path f \<noteq> []"
        using getOrDownloadFile_path [of e url "''/tmp''" name "os s1" f w2] Pair Inr by simp
      with Pair Inr s1 show ?thesis
        by (auto simp add: playOperation_def Let_def runAppleScript_def cleanup_session_ok
              session_ok_def session_inv_def cleanup_tempPath split: sum.splits)
    qed
  qed
qed

lemma playAudio_snd:
  "snd (playAudio e url sid name s) = snd (playOperation e url sid name (snd (getInstance s)))"
  unfolding playAudio_def enqueuePlayback_def
  by (subst getInstance_eq) (simp split: prod.splits sum.splits)

lemma playAudio_fst [simp]: "fst (playAudio e url sid name s) = Inr ()"
  unfolding playAudio_def enqueuePlayback_def
  by (subst getInstance_eq) (simp split: prod.splits sum.splits)

lemma perform_session_ok:
  "session_ok (current s) \<Longrightarrow> session_ok (current (perform e r s))"
proof (cases r)
  case (Play url sid name)
  assume "session_ok (current s)"
  then show ?thesis
    using playOperation_session_ok [of "snd (getInstance s)" e url sid name] Play
    by (simp add: playAudio_snd)
next
  case Stop
  assume "session_ok (current s)"
  then show ?thesis using Stop by (simp add: stopAudio_session_ok)
next
  case (Subscribe l)
  assume "session_ok (current s)"
  then show ?thesis using Subscribe
    by (simp add: subscribe_def session_ok_def session_inv_def)
next
  case (Unsubscribe l)
  assume "session_ok (current s)"
  then show ?thesis using Unsubscribe
    by (simp add: unsubscribe_def session_ok_def session_inv_def)
next
  case Cleanup
  assume "session_ok (current s)"
  then have "tempPath (current s) \<noteq> Some []" by (simp add: session_ok_def)
  then show ?thesis using Cleanup
    by (simp add: cleanup_session_ok)
next
  case CleanupPlayback
  assume "session_ok (current s)"
  then show ?thesis using CleanupPlayback
    by (simp add: cleanupPlayback_def session_ok_def session_inv_def)
qed

lemma perform_all_session_ok:
  "session_ok (current s) \<Longrightarrow> session_ok (current (perform_all e rs s))"
  unfolding perform_all_def
  by (induction rs arbitrary: s) (simp_all add: perform_session_ok)

lemma init_session_ok: "session_ok (current init_proc)"
  unfolding current_def getInstance_def
  by (simp add: init_proc_def new_manager_def session_ok_def session_inv_def)

lemma sessions_le_one: "length (sessions s) \<le> 1"
  by (simp add: sessions_def split: option.splits)

subsection \<open>The session invariant\<close>

lemma step_session_ok:
  "step e ev s = Some s' \<Longrightarrow> session_ok (current (process s)) \<Longrightarrow> session_ok (current (process s'))"
proof (cases ev)
  case (CallPlay u i n)
  assume "step e ev s = Some s'" "session_ok (current (process s))"
  with CallPlay show ?thesis by auto
next
  case CallStop
  assume "step e ev s = Some s'" "session_ok (current (process s))"
  with CallStop show ?thesis
    by (auto simp add: split_beta split: if_splits)
next
  case CallCleanupPlayback
  assume "step e ev s = Some s'" "session_ok (current (process s))"
  with CallCleanupPlayback show ?thesis
    by (auto simp add: cleanupPlayback_def session_ok_def session_inv_def)
next
  case Dequeue
  assume "step e ev s = Some s'" "session_ok (current (process s))"
  with Dequeue show ?thesis
    by (auto simp add: split_beta split: if_splits option.splits list.splits)
next
  case ResumeOp
  assume st: "step e ev s = Some s'" and ok: "session_ok (current (process s))"
  then have np: "tempPath (current (process s)) \<noteq> Some []" by (simp add: session_ok_def)
  from st ResumeOp obtain pc where pc: "running s = Some pc"
    by (cases "running s") auto
  show ?thesis
  proof (cases pc)
    case (OpStopping k r)
    with st ResumeOp pc np show ?thesis by (auto simp add: cleanup_session_ok)
  next
    case (OpDownloading k r)
    obtain u i n where r: "r = (u, i, n)" by (cases r) auto
    show ?thesis
    proof (cases "getOrDownloadFile e u ''/tmp'' n (os (process s))")
      case (Pair res w2)
      show ?thesis
      proof (cases res)
        case (Inl err)
        with st ResumeOp pc OpDownloading r Pair np show ?thesis
          by (auto simp add: cleanup_session_ok)
      next
        case (Inr f)
        have "path f \<noteq> []"
          using getOrDownloadFile_path [of e u "''/tmp''" n "os (process s)" f w2] Pair Inr by simp
        with st ResumeOp pc OpDownloading r Pair Inr show ?thesis
          by (auto simp add: Let_def session_ok_def session_inv_def)
      qed
    qed
  next
    case (OpStarting k r p)
    with st ResumeOp pc np ok show ?thesis
      by (auto simp add: cleanup_session_ok split: sum.splits)
  qed
next
  case ResumeStop
  assume st: "step e ev s = Some s'" and ok: "session_ok (current (process s))"
  then have np: "tempPath (current (process s)) \<noteq> Some []" by (simp add: session_ok_def)
  with st ResumeStop show ?thesis
    by (auto simp add: cleanup_session_ok split: if_splits)
qed

lemma run_session_ok:
  "run e evs s = Some s' \<Longrightarrow> session_ok (current (process s)) \<Longrightarrow> session_ok (current (process s'))"
proof (induction evs arbitrary: s)
  case Nil
  then show ?case by simp
next
  case (Cons ev evs)
  then show ?case
    by (cases "step e ev s") (auto dest: step_session_ok)
qed

lemma init_sys_session_ok: "session_ok (current (process init_sys))"
  by (simp add: init_sys_def init_session_ok)

text \<open>
  Claim C2. At every quiescent point of the playback state the session has a temp path
  exactly when it has a sample id, and there is at most one session in the process.
  This holds after any sequence of awaited requests (play, stop, cleanup, teardown,
  subscribe, unsubscribe) from the initial state, and also at every point of any run in
  which the requests are not awaited and their segments interleave.
\<close>

theorem session_invariant:
  "session_inv (current (perform_all e rs init_proc))
   \<and> length (sessions (perform_all e rs init_proc)) \<le> 1
   \<and> (run e evs init_sys = Some s \<longrightarrow>
        session_inv (current (process s)) \<and> length (sessions (process s)) \<le> 1)"
proof -
  have a: "session_inv (current (perform_all e rs init_proc))"
    using perform_all_session_ok [OF init_session_ok, of e rs] by (simp add: session_ok_def)
  have b: "run e evs init_sys = Some s \<longrightarrow> session_inv (current (process s))"
    using run_session_ok [of e evs init_sys s, OF _ init_sys_session_ok]
    by (simp add: session_ok_def)
  from a b sessions_le_one [of "perform_all e rs init_proc"] sessions_le_one [of "process s"]
  show ?thesis by blast
qed

text \<open>The invariant at a point where a direct stop overlaps a play operation.\<close>

theorem session_invariant_witness:
  "\<exists>s. stop_during_start = Some s \<and> session_inv (current (process s))
       \<and> length (sessions (process s)) \<le> 1"
proof -
  have "map_option stopping stop_during_start = Some 1" by code_simp
  then obtain s where h: "stop_during_start = Some s" by (cases stop_during_start) auto
  then have r: "run env_ok [CallPlay ''https://x/a.m4a'' ''a'' ''Alpha'', Dequeue, ResumeOp, CallStop]
                  init_sys = Some s"
    by (simp add: stop_during_start_def)
  from session_invariant [of env_ok "[]" "[CallPlay ''https://x/a.m4a'' ''a'' ''Alpha'', Dequeue, ResumeOp, CallStop]" s] r
  have "session_inv (current (process s)) \<and> length (sessions (process s)) \<le> 1" by blast
  with h show ?thesis by blast
qed

subsection \<open>Stopping when nothing plays\<close>

text \<open>
  Claim C5. When no sample id is set, \<open>stopAudio\<close> returns normally, leaves the world
  (and with it the list of scripts handed to the bridge) and the manager as they were.
  In every state, a second \<open>stopAudio\<close> right after a first one returns normally and hands
  nothing to the bridge, so the two calls together invoke the bridge at most once.
\<close>

theorem stopAudio_idempotent:
  "(getCurrentSampleId s = None \<longrightarrow>
      fst (stopAudio e s) = Inr ()
      \<and> os (snd (stopAudio e s)) = os s
      \<and> current (snd (stopAudio e s)) = current s)
   \<and> fst (stopAudio e (snd (stopAudio e s))) = Inr ()
   \<and> scripts (os (snd (stopAudio e (snd (stopAudio e s))))) = scripts (os (snd (stopAudio e s)))
   \<and> length (scripts (os (snd (stopAudio e (snd (stopAudio e s)))))) \<le> Suc (length (scripts (os s)))"
proof -
  have idle: "\<not> truthy_str (sampleId (current (snd (stopAudio e s))))"
    by (simp add: stopAudio_sampleId truthy_str_def)
  have a: "getCurrentSampleId s = None \<longrightarrow>
      fst (stopAudio e s) = Inr () \<and> os (snd (stopAudio e s)) = os s
      \<and> current (snd (stopAudio e s)) = current s"
    by (simp add: getCurrentSampleId_def stopAudio_idle truthy_str_def)
  have b: "scripts (os (snd (stopAudio e (snd (stopAudio e s))))) = scripts (os (snd (stopAudio e s)))"
    using idle by (simp add: stopAudio_scripts)
  have c: "length (scripts (os (snd (stopAudio e s)))) \<le> Suc (length (scripts (os s)))"
    by (simp add: stopAudio_scripts)
  from a b c show ?thesis by simp
qed

theorem stopAudio_idempotent_witness:
  "getCurrentSampleId init_proc = None
   \<and> fst (stopAudio env_ok init_proc) = Inr ()
   \<and> os (snd (stopAudio env_ok init_proc)) = os init_proc
   \<and> scripts (os (snd (stopAudio env_ok (snd (stopAudio env_ok playing_alpha))))) =
       scripts (os (snd (stopAudio env_ok playing_alpha)))"
proof -
  have h: "getCurrentSampleId init_proc = None"
    unfolding getCurrentSampleId_def current_def getInstance_def
    by (simp add: init_proc_def new_manager_def)
  show ?thesis
    using h stopAudio_idempotent [of init_proc env_ok] stopAudio_idempotent [of playing_alpha env_ok]
    by simp
qed

subsection \<open>Teardown\<close>

lemma playing_alpha_manager:
  "current playing_alpha = \<lparr>sampleId = Some ''a'', tempPath = Some ''/tmp/Alpha_61346D2E.m4a'', listeners = []\<rparr>"
  by code_simp

text \<open>
  Claim C4, as the code has it. From every state whose temp path is unset or a
  non-empty string, \<open>cleanupPlayback\<close> leaves no sample id, no temp path and no listener;
  every listener is told \<open>null\<close> first; the temp file is removed unless unlinking it
  fails; and the bridge is not invoked, so the player is not told to stop.
\<close>

theorem cleanupPlayback_clears:
  assumes "getCurrentTempPath s \<noteq> Some []"
  shows "getCurrentSampleId (cleanupPlayback e s) = None
     \<and> getCurrentTempPath (cleanupPlayback e s) = None
     \<and> listeners (current (cleanupPlayback e s)) = []
     \<and> scripts (os (cleanupPlayback e s)) = scripts (os s)
     \<and> notified (os (cleanupPlayback e s)) =
         notified (os s) @ map (\<lambda>l. (l, None)) (listeners (current s))
     \<and> files (os (cleanupPlayback e s)) =
         (case getCurrentTempPath s of
            None \<Rightarrow> files (os s)
          | Some p \<Rightarrow> if unlink_error e (os s) p = None then (files (os s))(p := None)
                      else files (os s))"
  using assms
  by (auto simp add: cleanupPlayback_def getCurrentSampleId_def getCurrentTempPath_def cleanup_files
        split: option.splits)

theorem cleanupPlayback_clears_witness:
  "getCurrentTempPath playing_alpha \<noteq> Some []
   \<and> getCurrentSampleId (cleanupPlayback env_ok playing_alpha) = None
   \<and> getCurrentTempPath (cleanupPlayback env_ok playing_alpha) = None
   \<and> listeners (current (cleanupPlayback env_ok playing_alpha)) = []
   \<and> scripts (os (cleanupPlayback env_ok playing_alpha)) = scripts (os playing_alpha)"
proof -
  have h: "getCurrentTempPath playing_alpha \<noteq> Some []"
    by (simp add: getCurrentTempPath_def playing_alpha_manager)
  show ?thesis
    using h cleanupPlayback_clears [OF h, of env_ok] by simp
qed

text \<open>
  The claim as stated fails where it says that teardown stops the playback: with
  ``Alpha'' playing, \<open>cleanupPlayback\<close> hands no stop script to the bridge.
\<close>

theorem cleanupPlayback_sends_no_stop:
  "getCurrentSampleId playing_alpha = Some ''a''
   \<and> scripts (os playing_alpha) = [playScript ''/tmp/Alpha_61346D2E.m4a'']
   \<and> scripts (os (cleanupPlayback env_ok playing_alpha)) = [playScript ''/tmp/Alpha_61346D2E.m4a'']
   \<and> stopScript \<notin> set (scripts (os (cleanupPlayback env_ok playing_alpha)))"
  by code_simp

subsection \<open>A play request that fails\<close>

text \<open>
  What holds of a failed operation: the state is reset, and the error it rethrows is
  the one of the download or of the player.
\<close>

lemma playOperation_failure_resets:
  assumes "fst (playOperation e url sid name s) = Inl err" and "session_ok (current s)"
  shows "sampleId (current (snd (playOperation e url sid name s))) = None
     \<and> tempPath (current (snd (playOperation e url sid name s))) = None"
proof -
  obtain s1 where s1: "stopAudio e s = (Inr (), s1)"
    by (metis stopAudio_fst prod.collapse)
  have "session_ok (current s1)"
    using stopAudio_session_ok [OF assms(2), of e] s1 by simp
  then have np: "tempPath (current s1) \<noteq> Some []" by (simp add: session_ok_def)
  obtain r w2 where dl: "getOrDownloadFile e url ''/tmp'' name (os s1) = (r, w2)"
    by (cases "getOrDownloadFile e url ''/tmp'' name (os s1)") auto
  show ?thesis
  proof (cases r)
    case (Inl err')
    with s1 dl np show ?thesis by (simp add: playOperation_def cleanup_tempPath)
  next
    case (Inr f)
    have "path f \<noteq> []"
      using getOrDownloadFile_path [of e url "''/tmp''" name "os s1" f w2] dl Inr by simp
    with s1 dl Inr assms(1) show ?thesis
      by (auto simp add: playOperation_def Let_def runAppleScript_def cleanup_tempPath
            split: sum.splits)
  qed
qed

lemma playOperation_failure_cause:
  assumes "fst (playOperation e url sid name s) = Inl err"
  shows "fst (getOrDownloadFile e url ''/tmp'' name (os (snd (stopAudio e s)))) = Inl err
     \<or> (\<exists>p w. bridge_result e (playScript p) w = Inl err)"
proof -
  obtain s1 where s1: "stopAudio e s = (Inr (), s1)"
    by (metis stopAudio_fst prod.collapse)
  obtain r w2 where dl: "getOrDownloadFile e url ''/tmp'' name (os s1) = (r, w2)"
    by (cases "getOrDownloadFile e url ''/tmp'' name (os s1)") auto
  show ?thesis
  proof (cases r)
    case (Inl err')
    with s1 dl assms show ?thesis by (simp add: playOperation_def)
  next
    case (Inr f)
    with s1 dl assms
    have "bridge_result e (playScript (path f))
            (bridge_call (playScript (path f))
               (snd (setPlayingState (Some sid) (Some (path f)) (current s1, w2)))) = Inl err"
      by (auto simp add: playOperation_def Let_def runAppleScript_def split: sum.splits)
    then show ?thesis by blast
  qed
qed

text \<open>
  Claim C3. When the download or the player fails, the operation resets the state and
  rethrows the error, but \<open>playAudio\<close> resolves normally: the \<open>catch\<close> inside
  \<open>enqueuePlayback\<close> sits on the promise that is returned to the caller. Evaluated with
  the network down (\<open>env_down\<close>) and with a bridge that fails (\<open>env_mute\<close>).
\<close>

theorem playAudio_swallows_failure:
  "fst (playOperation env_down ''https://x/a.m4a'' ''a'' ''Alpha'' init_proc)
     = Inl (DownloadError None ''fetch failed'')
   \<and> fst (playAudio env_down ''https://x/a.m4a'' ''a'' ''Alpha'' init_proc) = Inr ()
   \<and> fst (playOperation env_mute ''https://x/a.m4a'' ''a'' ''Alpha'' init_proc)
     = Inl (Error ''QuickTime Player got an error'')
   \<and> fst (playAudio env_mute ''https://x/a.m4a'' ''a'' ''Alpha'' init_proc) = Inr ()
   \<and> getCurrentSampleId (snd (playAudio env_down ''https://x/a.m4a'' ''a'' ''Alpha'' init_proc)) = None
   \<and> getCurrentTempPath (snd (playAudio env_down ''https://x/a.m4a'' ''a'' ''Alpha'' init_proc)) = None
   \<and> getCurrentSampleId (snd (playAudio env_mute ''https://x/a.m4a'' ''a'' ''Alpha'' init_proc)) = None
   \<and> getCurrentTempPath (snd (playAudio env_mute ''https://x/a.m4a'' ''a'' ''Alpha'' init_proc)) = None"
  by code_simp

subsection \<open>Reading the trace\<close>

lemma in_flight_snoc: "in_flight (tr @ [ob]) = track ob (in_flight tr)"
  by (simp add: in_flight_def)

lemma enqueued_append: "enqueued (tr @ tr') = enqueued tr @ enqueued tr'"
  by (induction tr rule: enqueued.induct) simp_all

lemma started_append: "started (tr @ tr') = started tr @ started tr'"
  by (induction tr rule: started.induct) simp_all

lemma finished_append: "finished (tr @ tr') = finished tr @ finished tr'"
  by (induction tr rule: finished.induct) simp_all

lemma started_mem: "b \<in> set (started tr) \<longleftrightarrow> Started b \<in> set tr"
  by (induction tr rule: started.induct) auto

lemma prefix_upt: "xs @ ys = [0..<n] \<Longrightarrow> xs = [0..<length xs]"
proof -
  assume h: "xs @ ys = [0..<n]"
  then have "length xs \<le> n" by (metis length_append length_upt le_add1 diff_zero)
  moreover from h have "xs = take (length xs) [0..<n]" by (metis append_eq_conv_conj)
  ultimately show ?thesis by (simp add: take_upt)
qed

lemma prefix_upt_next: "xs @ k # ys = [0..<n] \<Longrightarrow> k = length xs"
proof -
  assume h: "xs @ k # ys = [0..<n]"
  then have "(xs @ [k]) @ ys = [0..<n]" by simp
  then have "xs @ [k] = [0..<length (xs @ [k])]" by (rule prefix_upt)
  then have "xs @ [k] = [0..<length xs] @ [length xs]" by simp
  then show ?thesis by simp
qed

lemma snoc_split:
  "tr @ [ob] = pre @ x # post \<Longrightarrow>
     (post = [] \<and> pre = tr \<and> x = ob) \<or> (\<exists>post'. post = post' @ [ob] \<and> tr = pre @ x # post')"
  by (cases post rule: rev_cases) auto

lemma ordered_snoc_other:
  assumes "ordered tr" and "\<And>k sc. ob \<noteq> OpScript k sc" and "\<And>k. ob \<noteq> Started k"
  shows "ordered (tr @ [ob])"
  unfolding ordered_def
proof (intro allI impI)
  fix pre b post a
  assume h: "tr @ [ob] = pre @ Started b # post \<and> a < b"
  with snoc_split [of tr ob pre "Started b" post] assms(3)
  obtain post' where p: "post = post' @ [ob]" "tr = pre @ Started b # post'" by auto
  with assms(1) h have "a \<in> set (finished pre) \<and> (\<forall>sc. OpScript a sc \<notin> set post')"
    unfolding ordered_def by blast
  with p assms(2) show "a \<in> set (finished pre) \<and> (\<forall>sc. OpScript a sc \<notin> set post)"
    by auto
qed

lemma ordered_snoc_script:
  assumes "ordered tr" and "\<And>b. b \<in> set (started tr) \<Longrightarrow> b \<le> k"
  shows "ordered (tr @ [OpScript k sc])"
  unfolding ordered_def
proof (intro allI impI)
  fix pre b post a
  assume h: "tr @ [OpScript k sc] = pre @ Started b # post \<and> a < b"
  with snoc_split [of tr "OpScript k sc" pre "Started b" post]
  obtain post' where p: "post = post' @ [OpScript k sc]" "tr = pre @ Started b # post'" by auto
  with assms(1) h have old: "a \<in> set (finished pre) \<and> (\<forall>sc. OpScript a sc \<notin> set post')"
    unfolding ordered_def by blast
  from p have "b \<in> set (started tr)" by (simp add: started_mem)
  with assms(2) h have "a \<noteq> k" by fastforce
  with old p show "a \<in> set (finished pre) \<and> (\<forall>sc. OpScript a sc \<notin> set post)"
    by auto
qed

lemma ordered_snoc_started:
  assumes "ordered tr" and "\<And>a. a < b \<Longrightarrow> a \<in> set (finished tr)"
  shows "ordered (tr @ [Started b])"
  unfolding ordered_def
proof (intro allI impI)
  fix pre b' post a
  assume h: "tr @ [Started b] = pre @ Started b' # post \<and> a < b'"
  from snoc_split [of tr "Started b" pre "Started b'" post] h
  consider "post = []" "pre = tr" "b' = b"
    | post' where "post = post' @ [Started b]" "tr = pre @ Started b' # post'" by auto
  then show "a \<in> set (finished pre) \<and> (\<forall>sc. OpScript a sc \<notin> set post)"
  proof cases
    case 1
    with h assms(2) show ?thesis by simp
  next
    case 2
    with assms(1) h have "a \<in> set (finished pre) \<and> (\<forall>sc. OpScript a sc \<notin> set post')"
      unfolding ordered_def by blast
    with 2 show ?thesis by auto
  qed
qed

subsection \<open>The queue discipline is kept by every segment\<close>

lemma queue_inv_running:
  assumes "queue_inv s" and "running s = Some pc" and "b \<in> set (started (trace s))"
  shows "b \<le> ticket pc"
proof -
  let ?st = "started (trace s)"
  from assms(1) have "?st @ map fst (pending s) = [0..<issued s]" by (simp add: queue_inv_def)
  then have up: "?st = [0..<length ?st]" by (rule prefix_upt)
  from assms(1,2) have fin: "finished (trace s) @ [ticket pc] = ?st" by (simp add: queue_inv_def)
  then have "finished (trace s) @ ticket pc # [] = [0..<length ?st]" using up by simp
  then have "ticket pc = length (finished (trace s))" by (rule prefix_upt_next)
  moreover from fin have "length ?st = Suc (length (finished (trace s)))"
    by (metis length_append_singleton)
  moreover from assms(3) up have "b < length ?st" by (metis atLeastLessThan_iff set_upt)
  ultimately show ?thesis by simp
qed

lemma queue_inv_head:
  assumes "queue_inv s" and "running s = None" and "pending s = (k, r) # rest"
  shows "(\<forall>a<k. a \<in> set (finished (trace s))) \<and> (\<forall>b \<in> set (started (trace s)). b \<le> k)"
proof -
  let ?st = "started (trace s)"
  from assms(1,3) have a: "?st @ k # map fst rest = [0..<issued s]" by (simp add: queue_inv_def)
  then have k: "k = length ?st" by (rule prefix_upt_next)
  from a have up: "?st = [0..<length ?st]" by (rule prefix_upt)
  from assms(1,2) have "finished (trace s) = ?st" by (simp add: queue_inv_def)
  with up k have "set (finished (trace s)) = {0..<k}" by (metis set_upt)
  moreover from up k have "set ?st = {0..<k}" by (metis set_upt)
  ultimately show ?thesis by auto
qed

lemma step_queue_inv:
  assumes st: "step e ev s = Some s'" and q: "queue_inv s" and o: "ordered (trace s)"
  shows "queue_inv s' \<and> ordered (trace s')"
proof (cases ev)
  case (CallPlay u i n)
  with st q have "queue_inv s'"
    by (auto simp add: queue_inv_def enqueued_append started_append finished_append in_flight_snoc
          split: option.splits)
  moreover from CallPlay st o have "ordered (trace s')"
    by (auto intro: ordered_snoc_other)
  ultimately show ?thesis by simp
next
  case CallStop
  with st q have "queue_inv s'"
    by (auto simp add: queue_inv_def enqueued_append started_append finished_append in_flight_snoc
          split_beta split: option.splits if_splits)
  moreover from CallStop st o have "ordered (trace s')"
    by (auto simp add: split_beta intro: ordered_snoc_other split: if_splits)
  ultimately show ?thesis by simp
next
  case CallCleanupPlayback
  with st q have "queue_inv s'"
    by (auto simp add: queue_inv_def enqueued_append started_append finished_append in_flight_snoc
          split: option.splits)
  moreover from CallCleanupPlayback st o have "ordered (trace s')"
    by (auto intro: ordered_snoc_other)
  ultimately show ?thesis by simp
next
  case ResumeStop
  with st q have "queue_inv s'"
    by (auto simp add: queue_inv_def enqueued_append started_append finished_append in_flight_snoc
          split: option.splits if_splits)
  moreover from ResumeStop st o have "ordered (trace s')"
    by (auto intro: ordered_snoc_other split: if_splits)
  ultimately show ?thesis by simp
next
  case Dequeue
  with st obtain k r rest where run: "running s = None" and pend: "pending s = (k, r) # rest"
    by (auto split: option.splits list.splits)
  from queue_inv_head [OF q run pend]
  have fin: "\<And>a. a < k \<Longrightarrow> a \<in> set (finished (trace s))"
    and le: "\<And>b. b \<in> set (started (trace s)) \<Longrightarrow> b \<le> k" by auto
  have o1: "ordered (trace s @ [Started k])"
    using o fin by (rule ordered_snoc_started)
  have o2: "ordered ((trace s @ [Started k]) @ [OpScript k stopScript])"
    using o1 le by (intro ordered_snoc_script) (auto simp add: started_append)
  from Dequeue st q run pend have "queue_inv s'"
    by (auto simp add: queue_inv_def enqueued_append started_append finished_append in_flight_snoc
          in_flight_def split_beta split: if_splits)
  moreover from Dequeue st run pend o1 o2 have "ordered (trace s')"
    by (auto simp add: split_beta split: if_splits)
  ultimately show ?thesis by simp
next
  case ResumeOp
  with st obtain pc where run: "running s = Some pc"
    by (cases "running s") auto
  have le: "\<And>b. b \<in> set (started (trace s)) \<Longrightarrow> b \<le> ticket pc"
    using queue_inv_running [OF q run] by simp
  have os: "\<And>sc. ordered (trace s @ [OpScript (ticket pc) sc])"
    using o le by (rule ordered_snoc_script)
  have of: "\<And>err. ordered (trace s @ [Finished (ticket pc) err])"
    using o by (rule ordered_snoc_other) simp_all
  show ?thesis
  proof (cases pc)
    case (OpStopping k r)
    with ResumeOp st q run o show ?thesis
      by (auto simp add: queue_inv_def)
  next
    case (OpDownloading k r)
    with ResumeOp st q run have "queue_inv s'"
      by (auto simp add: queue_inv_def enqueued_append started_append finished_append
            in_flight_snoc Let_def split: prod.splits sum.splits)
    moreover from OpDownloading ResumeOp st run os [simplified OpDownloading] of [simplified OpDownloading]
    have "ordered (trace s')"
      by (auto simp add: Let_def split: prod.splits sum.splits)
    ultimately show ?thesis by simp
  next
    case (OpStarting k r p)
    with ResumeOp st q run have "queue_inv s'"
      by (auto simp add: queue_inv_def enqueued_append started_append finished_append
            in_flight_snoc Let_def split: prod.splits sum.splits)
    moreover from OpStarting ResumeOp st run of [simplified OpStarting]
    have "ordered (trace s')"
      by (auto simp add: Let_def split: prod.splits sum.splits)
    ultimately show ?thesis by simp
  qed
qed

lemma run_queue_inv:
  "run e evs s = Some s' \<Longrightarrow> queue_inv s \<Longrightarrow> ordered (trace s) \<Longrightarrow> queue_inv s' \<and> ordered (trace s')"
proof (induction evs arbitrary: s)
  case Nil
  then show ?case by simp
next
  case (Cons ev evs)
  then show ?case
    by (cases "step e ev s") (auto dest: step_queue_inv)
qed

lemma init_queue_inv: "queue_inv init_sys \<and> ordered (trace init_sys)"
  by (simp add: queue_inv_def init_sys_def ordered_def in_flight_def)

subsection \<open>Draining the queue\<close>

declare drain.simps [simp del]

lemma drain_stop: "next_event s = None \<Longrightarrow> drain e s = s"
  by (subst drain.simps) simp

lemma drain_step: "next_event s = Some ev \<Longrightarrow> step e ev s = Some s' \<Longrightarrow> drain e s = drain e s'"
  by (subst drain.simps) simp

lemma next_event_enabled: "next_event s = Some ev \<Longrightarrow> \<exists>s'. step e ev s = Some s'"
  by (auto simp add: next_event_def Let_def split_beta
        split: if_splits option.splits list.splits op_pc.splits prod.splits sum.splits)

lemma next_event_enqueued:
  "next_event s = Some ev \<Longrightarrow> step e ev s = Some s' \<Longrightarrow> enqueued (trace s') = enqueued (trace s)"
  by (auto simp add: next_event_def Let_def split_beta enqueued_append
        split: if_splits option.splits list.splits op_pc.splits prod.splits sum.splits)

lemma run_append:
  "run e (evs @ evs') s = (case run e evs s of None \<Rightarrow> None | Some s' \<Rightarrow> run e evs' s')"
  by (induction evs arbitrary: s) (simp_all split: option.splits)

lemma drain_run: "\<exists>evs. run e evs s = Some (drain e s)"
proof (induction e s rule: drain.induct)
  case (1 e s)
  show ?case
  proof (cases "next_event s")
    case None
    then have "run e [] s = Some (drain e s)" by (simp add: drain_stop)
    then show ?thesis by blast
  next
    case (Some ev)
    then obtain s' where s': "step e ev s = Some s'" using next_event_enabled by blast
    with 1 Some obtain evs where "run e evs s' = Some (drain e s')" by blast
    with Some s' have "run e (ev # evs) s = Some (drain e s)" by (simp add: drain_step)
    then show ?thesis by blast
  qed
qed

lemma drain_done: "pending (drain e s) = [] \<and> running (drain e s) = None"
proof (induction e s rule: drain.induct)
  case (1 e s)
  show ?case
  proof (cases "next_event s")
    case None
    then show ?thesis by (auto simp add: drain_stop next_event_def split: if_splits)
  next
    case (Some ev)
    then obtain s' where s': "step e ev s = Some s'" using next_event_enabled by blast
    with 1 Some show ?thesis by (simp add: drain_step)
  qed
qed

lemma drain_enqueued: "enqueued (trace (drain e s)) = enqueued (trace s)"
proof (induction e s rule: drain.induct)
  case (1 e s)
  show ?case
  proof (cases "next_event s")
    case None
    then show ?thesis by (simp add: drain_stop)
  next
    case (Some ev)
    then obtain s' where s': "step e ev s = Some s'" using next_event_enabled by blast
    with 1 Some next_event_enqueued [OF Some s'] show ?thesis by (simp add: drain_step)
  qed
qed

lemma drain_finished:
  assumes "queue_inv s" and "ordered (trace s)"
  shows "finished (trace (drain e s)) = enqueued (trace s)"
proof -
  from drain_run obtain evs where "run e evs s = Some (drain e s)" by blast
  with assms have q: "queue_inv (drain e s)" using run_queue_inv by blast
  with drain_done [of e s]
  have "finished (trace (drain e s)) = enqueued (trace (drain e s))"
    by (simp add: queue_inv_def)
  then show ?thesis by (simp add: drain_enqueued)
qed

subsection \<open>The trace tells the bridge calls\<close>

lemma bridge_calls_append: "bridge_calls (tr @ tr') = bridge_calls tr @ bridge_calls tr'"
  by (induction tr rule: bridge_calls.induct) simp_all

lemma step_bridge_calls:
  assumes "step e ev s = Some s'" and "scripts (os (process s)) = bridge_calls (trace s)"
  shows "scripts (os (process s')) = bridge_calls (trace s')"
proof (cases ev)
  case (CallPlay u i n)
  with assms show ?thesis by (auto simp add: bridge_calls_append)
next
  case CallStop
  with assms show ?thesis
    by (auto simp add: bridge_calls_append split_beta bridge_call_def split: if_splits)
next
  case CallCleanupPlayback
  with assms show ?thesis by (auto simp add: bridge_calls_append cleanupPlayback_def)
next
  case Dequeue
  with assms show ?thesis
    by (auto simp add: bridge_calls_append split_beta bridge_call_def
          split: if_splits option.splits list.splits)
next
  case ResumeStop
  with assms show ?thesis by (auto simp add: bridge_calls_append split: if_splits)
next
  case ResumeOp
  with assms obtain pc where pc: "running s = Some pc" by (cases "running s") auto
  show ?thesis
  proof (cases pc)
    case (OpStopping k r)
    with assms ResumeOp pc show ?thesis by auto
  next
    case (OpDownloading k r)
    obtain u i n where r: "r = (u, i, n)" by (cases r) auto
    have "scripts (snd (getOrDownloadFile e u ''/tmp'' n (os (process s)))) = scripts (os (process s))"
      by (rule getOrDownloadFile_scripts)
    with assms ResumeOp pc OpDownloading r show ?thesis
      by (auto simp add: bridge_calls_append Let_def bridge_call_def split: prod.splits sum.splits)
  next
    case (OpStarting k r p)
    with assms ResumeOp pc show ?thesis
      by (auto simp add: bridge_calls_append split: sum.splits)
  qed
qed

lemma run_bridge_calls:
  "run e evs s = Some s' \<Longrightarrow> scripts (os (process s)) = bridge_calls (trace s) \<Longrightarrow>
   scripts (os (process s')) = bridge_calls (trace s')"
proof (induction evs arbitrary: s)
  case Nil
  then show ?case by simp
next
  case (Cons ev evs)
  then show ?case
    by (cases "step e ev s") (auto dest: step_bridge_calls)
qed

lemma init_bridge_calls: "scripts (os (process init_sys)) = bridge_calls (trace init_sys)"
  by (simp add: init_sys_def init_proc_def init_world_def)

text \<open>
  Claim C1, as the code has it. Every play request is appended to the queue and
  tickets follow the order of the calls; operations start in ticket order, one at a
  time; the trace accounts for every script handed to the bridge; when an operation starts, every earlier one has finished and none of its
  scripts comes later; letting the queue run completes every operation enqueued,
  whether or not earlier ones failed. A direct \<open>stopAudio\<close> never touches the queue.
\<close>

theorem play_requests_serialized:
  assumes "run e evs init_sys = Some s"
  shows "serial (trace s)
     \<and> scripts (os (process s)) = bridge_calls (trace s)
     \<and> enqueued (trace s) = [0..<issued s]
     \<and> started (trace s) @ map fst (pending s) = enqueued (trace s)
     \<and> (\<forall>pre b post a. trace s = pre @ Started b # post \<and> a < b \<longrightarrow>
           a \<in> set (finished pre) \<and> (\<forall>sc. OpScript a sc \<notin> set post))
     \<and> pending (drain e s) = [] \<and> running (drain e s) = None
     \<and> finished (trace (drain e s)) = enqueued (trace s)
     \<and> (\<forall>s1 audioUrl sid sampleName.
           step e (CallPlay audioUrl sid sampleName) s = Some s1 \<longrightarrow>
             pending s1 = pending s @ [(issued s, (audioUrl, sid, sampleName))])
     \<and> (\<forall>s1. step e CallStop s = Some s1 \<longrightarrow> pending s1 = pending s \<and> running s1 = running s)"
proof -
  from assms init_queue_inv have q: "queue_inv s" and o: "ordered (trace s)"
    using run_queue_inv by blast+
  from q have a: "serial (trace s)" by (simp add: queue_inv_def serial_def)
  from q have b: "enqueued (trace s) = [0..<issued s]"
    "started (trace s) @ map fst (pending s) = enqueued (trace s)"
    by (simp_all add: queue_inv_def)
  from o have c: "\<forall>pre b post a. trace s = pre @ Started b # post \<and> a < b \<longrightarrow>
           a \<in> set (finished pre) \<and> (\<forall>sc. OpScript a sc \<notin> set post)"
    unfolding ordered_def .
  have d: "\<forall>s1. step e CallStop s = Some s1 \<longrightarrow> pending s1 = pending s \<and> running s1 = running s"
    by (auto simp add: split_beta split: if_splits)
  from a b c d drain_done [of e s] drain_finished [OF q o, of e]
       run_bridge_calls [OF assms init_bridge_calls]
  show ?thesis by simp
qed

text \<open>
  Two plays with the network down: the first operation fails, the second starts after
  it, and draining finishes both.
\<close>

theorem play_requests_serialized_witness:
  "\<exists>s. two_plays_offline = Some s
       \<and> trace s = [Enqueued 0 alpha, Enqueued 1 beta, Started 0,
                    Finished 0 (Some (DownloadError None ''fetch failed''))] @ Started 1 # []
       \<and> (0::nat) < 1
       \<and> serial (trace s)
       \<and> 0 \<in> set (finished [Enqueued 0 alpha, Enqueued 1 beta, Started 0,
                    Finished 0 (Some (DownloadError None ''fetch failed''))])
       \<and> finished (trace (drain env_down s)) = [0, 1]"
proof -
  let ?pre = "[Enqueued 0 alpha, Enqueued 1 beta, Started 0,
               Finished 0 (Some (DownloadError None ''fetch failed''))]"
  have "map_option trace two_plays_offline = Some (?pre @ Started 1 # [])"
    by code_simp
  then obtain s where h: "two_plays_offline = Some s" and tr: "trace s = ?pre @ Started 1 # []"
    by (cases two_plays_offline) auto
  from h have r: "run env_down
       [CallPlay ''https://x/a.m4a'' ''a'' ''Alpha'', CallPlay ''https://x/b.m4a'' ''b'' ''Beta'',
        Dequeue, ResumeOp, Dequeue] init_sys = Some s"
    by (simp add: two_plays_offline_def)
  have en: "enqueued (trace s) = [0, 1]" using tr by simp
  from play_requests_serialized [OF r] tr en h show ?thesis
    by (intro exI [of _ s]) simp
qed

text \<open>
  The claim as stated fails for stop requests. A stop called right after a play is not
  enqueued: it returns before the play operation starts, and the sample ends up
  playing, where processing the two requests in order leaves nothing playing. A stop
  called while the play operation awaits the player hands its script to the bridge
  at once.
\<close>

theorem stop_request_not_queued:
  "map_option pending play_then_stop = Some [(0, alpha)]
   \<and> map_option running play_then_stop = Some None
   \<and> map_option stopping play_then_stop = Some 0
   \<and> map_option trace play_then_stop = Some [Enqueued 0 alpha, StopCalled False]
   \<and> map_option (getCurrentSampleId \<circ> process \<circ> drain env_ok) play_then_stop = Some (Some ''a'')
   \<and> getCurrentSampleId (perform_all env_ok [Play ''https://x/a.m4a'' ''a'' ''Alpha'', Stop] init_proc) = None
   \<and> map_option trace stop_during_start =
       Some [Enqueued 0 alpha, Started 0, OpScript 0 (playScript ''/tmp/Alpha_61346D2E.m4a''),
             StopCalled True]
   \<and> map_option (scripts \<circ> os \<circ> process) stop_during_start =
       Some [playScript ''/tmp/Alpha_61346D2E.m4a'', stopScript]
   \<and> map_option running stop_during_start =
       Some (Some (OpStarting 0 alpha ''/tmp/Alpha_61346D2E.m4a''))"
  by code_simp

subsection \<open>An awaited call is the queue drained after the call\<close>

lemma getInstance_idem [simp]: "snd (getInstance (snd (getInstance s))) = snd (getInstance s)"
  unfolding getInstance_def by (simp split: option.splits)

lemma getInstance_with_manager [simp]: "snd (getInstance (with_manager f s)) = with_manager f s"
  unfolding getInstance_def with_manager_def by (simp add: split_beta split: option.splits)

lemma with_manager_getInstance_os [simp]:
  "with_manager f ((snd (getInstance s))\<lparr>os := w\<rparr>) = with_manager f (s\<lparr>os := w\<rparr>)"
  unfolding with_manager_def getInstance_def by (simp split: option.splits)

lemma stopAudio_twice: "snd (stopAudio e (snd (stopAudio e s))) = snd (stopAudio e s)"
proof -
  have idle: "\<not> truthy_str (sampleId (current (snd (stopAudio e s))))"
    by (simp add: stopAudio_sampleId truthy_str_def)
  have "snd (stopAudio e (snd (stopAudio e s))) = snd (getInstance (snd (stopAudio e s)))"
    using stopAudio_idle [OF idle] by simp
  also have "\<dots> = snd (stopAudio e s)"
    by (cases "truthy_str (sampleId (current s))") (simp_all add: stopAudio_idle stopAudio_active)
  finally show ?thesis .
qed

lemma playOperation_after_stop:
  "playOperation e url sid name (snd (stopAudio e s)) = playOperation e url sid name s"
proof -
  have a: "stopAudio e s = (Inr (), snd (stopAudio e s))"
    by (metis stopAudio_fst prod.collapse)
  have b: "stopAudio e (snd (stopAudio e s)) = (Inr (), snd (stopAudio e s))"
    by (metis stopAudio_fst stopAudio_twice prod.collapse)
  show ?thesis
    unfolding playOperation_def by (simp only: b) (subst (2) a, simp)
qed

lemma drain_downloading:
  assumes "running s = Some (OpDownloading k (audioUrl, sid, sampleName))" and "pending s = []"
    and "\<not> truthy_str (sampleId (current (process s)))"
  shows "process (drain e s) = snd (playOperation e audioUrl sid sampleName (process s))"
proof -
  let ?r = "(audioUrl, sid, sampleName)"
  have ne2: "next_event s = Some ResumeOp" using assms by (simp add: next_event_def)
  obtain res w2 where dl: "getOrDownloadFile e audioUrl ''/tmp'' sampleName (os (process s)) = (res, w2)"
    by (cases "getOrDownloadFile e audioUrl ''/tmp'' sampleName (os (process s))") auto
  show ?thesis
  proof (cases res)
    case (Inl err)
    let ?s3 = "s\<lparr>process := with_manager (cleanup e) ((process s)\<lparr>os := w2\<rparr>),
                 running := None, trace := trace s @ [Finished k (Some err)]\<rparr>"
    have s3: "step e ResumeOp s = Some ?s3" using assms dl Inl by simp
    have ne3: "next_event ?s3 = None" using assms by (simp add: next_event_def)
    have "drain e s = ?s3"
      using drain_step [OF ne2 s3] drain_stop [OF ne3] by simp
    moreover have "snd (playOperation e audioUrl sid sampleName (process s)) = process ?s3"
      using assms dl Inl by (simp add: playOperation_def stopAudio_idle)
    ultimately show ?thesis by simp
  next
    case (Inr f)
    let ?p3 = "with_manager (setPlayingState (Some sid) (Some (path f))) ((process s)\<lparr>os := w2\<rparr>)"
    let ?s3 = "s\<lparr>process := ?p3\<lparr>os := bridge_call (playScript (path f)) (os ?p3)\<rparr>,
                 running := Some (OpStarting k ?r (path f)),
                 trace := trace s @ [OpScript k (playScript (path f))]\<rparr>"
    have s3: "step e ResumeOp s = Some ?s3" using assms dl Inr by (simp add: Let_def)
    have ne3: "next_event ?s3 = Some ResumeOp" by (simp add: next_event_def)
    obtain s4 where s4: "step e ResumeOp ?s3 = Some s4" using next_event_enabled [OF ne3] by blast
    then have ne4: "next_event s4 = None"
      using assms by (auto simp add: next_event_def split: sum.splits)
    have "drain e s = s4"
      using drain_step [OF ne2 s3] drain_step [OF ne3 s4] drain_stop [OF ne4]
      by simp
    moreover have "snd (playOperation e audioUrl sid sampleName (process s)) = process s4"
      using assms dl Inr s4
      by (auto simp add: playOperation_def stopAudio_idle Let_def runAppleScript_def
            split: sum.splits)
    ultimately show ?thesis by simp
  qed
qed

lemma drain_play_awaited:
  assumes "running s = None" and "pending s = []"
  shows "map_option (process \<circ> drain e) (step e (CallPlay audioUrl sid sampleName) s)
           = Some (snd (playAudio e audioUrl sid sampleName (process s)))"
proof -
  let ?r = "(audioUrl, sid, sampleName)"
  let ?p1 = "snd (getInstance (process s))"
  let ?s1 = "s\<lparr>process := ?p1, pending := [(issued s, ?r)],
               issued := Suc (issued s), trace := trace s @ [Enqueued (issued s) ?r]\<rparr>"
  have s1: "step e (CallPlay audioUrl sid sampleName) s = Some ?s1" using assms by simp
  have ne1: "next_event ?s1 = Some Dequeue" using assms by (simp add: next_event_def)
  have goal: "process (drain e ?s1) = snd (playOperation e audioUrl sid sampleName ?p1)"
  proof (cases "truthy_str (sampleId (current (process s)))")
    case False
    let ?s2 = "?s1\<lparr>process := ?p1, pending := [],
                    running := Some (OpDownloading (issued s) ?r),
                    trace := trace ?s1 @ [Started (issued s)]\<rparr>"
    have s2: "step e Dequeue ?s1 = Some ?s2" using assms False by (simp add: split_beta)
    have "process (drain e ?s2) = snd (playOperation e audioUrl sid sampleName (process ?s2))"
      using False by (intro drain_downloading) simp_all
    with drain_step [OF ne1 s2] show ?thesis by simp
  next
    case True
    let ?s2 = "?s1\<lparr>process := ?p1\<lparr>os := bridge_call stopScript (os ?p1)\<rparr>, pending := [],
                    running := Some (OpStopping (issued s) ?r),
                    trace := trace ?s1 @ [Started (issued s), OpScript (issued s) stopScript]\<rparr>"
    have s2: "step e Dequeue ?s1 = Some ?s2" using assms True by (simp add: split_beta)
    have ne2: "next_event ?s2 = Some ResumeOp" by (simp add: next_event_def)
    let ?s3 = "?s2\<lparr>process := with_manager (cleanup e) (process ?s2),
                    running := Some (OpDownloading (issued s) ?r)\<rparr>"
    have s3: "step e ResumeOp ?s2 = Some ?s3" by simp
    have stopped: "process ?s3 = snd (stopAudio e ?p1)"
      using True by (simp add: stopAudio_active)
    have "process (drain e ?s3) = snd (playOperation e audioUrl sid sampleName (process ?s3))"
      by (intro drain_downloading) (simp_all add: truthy_str_def)
    with drain_step [OF ne1 s2] drain_step [OF ne2 s3] stopped show ?thesis
      by (simp add: playOperation_after_stop)
  qed
  with s1 show ?thesis by (simp add: playAudio_snd)
qed

lemma stop_awaited:
  assumes "step e CallStop s = Some s1"
  shows "if stopping s1 = stopping s then process s1 = snd (stopAudio e (process s))
         else map_option process (step e ResumeStop s1) = Some (snd (stopAudio e (process s)))"
  using assms
  by (cases "truthy_str (sampleId (current (process s)))")
     (auto simp add: split_beta stopAudio_idle stopAudio_active)

section \<open>Properties of the path resolver and the cache\<close>



lemma plain_url_extension: "inferExtension (replicate k CHR ''a'') = defaultExtension"
proof -
  have "url_path (replicate k CHR ''a'') = []"
    by (simp add: url_path_def)
  then show ?thesis by (simp add: inferExtension_def last_segment_def)
qed












text \<open>
  Collisions are not peculiar to that hash: no hash of bounded length separates all
  URLs, so no short hash makes the resolver injective in the URL.
\<close>

lemma plain_url_path:
  "getExpectedFilePath e (replicate k CHR ''a'') name None dir
     = dir @ ''/'' @ sanitizeName name @ ''_'' @ urlHash e (replicate k CHR ''a'') @ defaultExtension"
  by (simp add: getExpectedFilePath_def plain_url_extension)

lemma bounded_strings_finite: "finite {xs :: string. length xs \<le> n}"
  using finite_lists_length_le [of "UNIV :: char set" n] by simp

lemma short_hash_not_injective:
  "\<not> (\<exists>e. short_hash (urlHash e)
          \<and> (\<forall>url1 url2 name. url1 \<noteq> url2 \<longrightarrow>
                getExpectedFilePath e url1 name None ''/tmp''
                  \<noteq> getExpectedFilePath e url2 name None ''/tmp''))"
proof
  assume "\<exists>e. short_hash (urlHash e)
          \<and> (\<forall>url1 url2 name. url1 \<noteq> url2 \<longrightarrow>
                getExpectedFilePath e url1 name None ''/tmp''
                  \<noteq> getExpectedFilePath e url2 name None ''/tmp'')"
  then obtain e where sh: "short_hash (urlHash e)"
    and inj: "\<And>url1 url2 name. url1 \<noteq> url2 \<Longrightarrow>
                getExpectedFilePath e url1 name None ''/tmp''
                  \<noteq> getExpectedFilePath e url2 name None ''/tmp''"
    by metis
  from sh obtain n where bound: "\<And>url. length (urlHash e url) \<le> n"
    unfolding short_hash_def by metis
  define f where "f = (\<lambda>k::nat. urlHash e (replicate k CHR ''a''))"
  have "inj f"
  proof (rule injI)
    fix j k assume eq: "f j = f k"
    have "getExpectedFilePath e (replicate j CHR ''a'') [] None ''/tmp''
            = getExpectedFilePath e (replicate k CHR ''a'') [] None ''/tmp''"
      using eq unfolding f_def plain_url_path by (rule arg_cong)
    then have "replicate j CHR ''a'' = replicate k CHR ''a''"
      using inj by metis
    then have "length (replicate j CHR ''a'') = length (replicate k CHR ''a'')"
      by (rule arg_cong)
    then show "j = k" by simp
  qed
  moreover have "range f \<subseteq> {xs. length xs \<le> n}"
    using bound unfolding f_def by auto
  then have "finite (range f)"
    using bounded_strings_finite by (rule finite_subset)
  ultimately have "finite (UNIV :: nat set)" by (rule finite_imageD [rotated])
  then show False by simp
qed

lemma getOrDownloadFile_hit:
  assumes "files w (getExpectedFilePath e url name None dir) = Some f0" and "content f0 \<noteq> []"
  shows "getOrDownloadFile e url dir name w =
           (Inr \<lparr>path = getExpectedFilePath e url name None dir, buffer = content f0,
                  contentType = ctype f0\<rparr>, w)"
  using assms by (simp add: getOrDownloadFile_def existsSync_def statSize_def)

lemma getOrDownloadFile_success:
  assumes "getOrDownloadFile e url dir name w = (Inr f, w1)"
  shows "buffer f \<noteq> []
     \<and> files w1 (getExpectedFilePath e url name None dir)
           = Some \<lparr>content = buffer f, ctype = contentType f\<rparr>
     \<and> path f = getExpectedFilePath e url name None dir"
  using assms
  by (auto simp add: getOrDownloadFile_def Let_def existsSync_def statSize_def
        split: if_splits option.splits http_result.splits)

text \<open>
  Claim C8. After a successful \<open>getOrDownloadFile\<close>, the same request again returns
  the same path, bytes and content type and leaves the world as it is: no network
  request is added. The file at the resolved path holds those bytes and is not empty;
  \<open>prepareFiles\<close> likewise takes the file from \<open>/tmp\<close> without a download.
\<close>

theorem second_request_served_from_cache:
  assumes "getOrDownloadFile e url dir name w = (Inr f, w1)"
  shows "getOrDownloadFile e url dir name w1 = (Inr f, w1)
     \<and> fetches (snd (getOrDownloadFile e url dir name w1)) = fetches w1
     \<and> buffer f \<noteq> []
     \<and> files w1 (path f) = Some \<lparr>content = buffer f, ctype = contentType f\<rparr>
     \<and> (dir = ''/tmp'' \<longrightarrow>
          prepareSample e \<lparr>sample_id = i, sample_name = name, sample_url = url, bpm = b\<rparr> w1
            = (Some (i, path f), w1))"
proof -
  let ?p = "getExpectedFilePath e url name None dir"
  from getOrDownloadFile_success [OF assms]
  have ne: "buffer f \<noteq> []" and fl: "files w1 ?p = Some \<lparr>content = buffer f, ctype = contentType f\<rparr>"
    and pf: "path f = ?p" by simp_all
  have again: "getOrDownloadFile e url dir name w1 = (Inr f, w1)"
    using getOrDownloadFile_hit [of w1 e url name dir "\<lparr>content = buffer f, ctype = contentType f\<rparr>"]
      fl ne pf by simp
  have prep: "dir = ''/tmp'' \<longrightarrow>
          prepareSample e \<lparr>sample_id = i, sample_name = name, sample_url = url, bpm = b\<rparr> w1
            = (Some (i, path f), w1)"
    using fl ne pf by (auto simp add: prepareSample_def existsSync_def statSize_def Let_def)
  from again ne fl pf prep show ?thesis by simp
qed

theorem second_request_served_from_cache_witness:
  "\<exists>f w1. getOrDownloadFile env_ok ''https://x/a.m4a'' ''/tmp'' ''Alpha'' init_world = (Inr f, w1)
     \<and> buffer f = ''RIFFdata''
     \<and> fetches w1 = [''https://x/a.m4a'']
     \<and> getOrDownloadFile env_ok ''https://x/a.m4a'' ''/tmp'' ''Alpha'' w1 = (Inr f, w1)
     \<and> fetches (snd (getOrDownloadFile env_ok ''https://x/a.m4a'' ''/tmp'' ''Alpha'' w1))
          = [''https://x/a.m4a'']"
proof -
  obtain r w1 where h: "getOrDownloadFile env_ok ''https://x/a.m4a'' ''/tmp'' ''Alpha'' init_world = (r, w1)"
    by (cases "getOrDownloadFile env_ok ''https://x/a.m4a'' ''/tmp'' ''Alpha'' init_world") auto
  have b: "map_sum id buffer (fst (getOrDownloadFile env_ok ''https://x/a.m4a'' ''/tmp'' ''Alpha'' init_world))
             = Inr ''RIFFdata''"
    by code_simp
  have ft: "fetches (snd (getOrDownloadFile env_ok ''https://x/a.m4a'' ''/tmp'' ''Alpha'' init_world))
             = [''https://x/a.m4a'']"
    by code_simp
  from b h obtain f where f: "r = Inr f" "buffer f = ''RIFFdata''" by (cases r) auto
  from h f have h': "getOrDownloadFile env_ok ''https://x/a.m4a'' ''/tmp'' ''Alpha'' init_world = (Inr f, w1)"
    by simp
  from ft h have ft1: "fetches w1 = [''https://x/a.m4a'']" by simp
  from second_request_served_from_cache [OF h'] f ft1 h' show ?thesis by metis
qed

text \<open>
  Claim C9. With a zero-length file at the expected path, the request goes to the
  network; what it returns is never the empty file; when the fetch succeeds the file is
  overwritten with the body. \<open>prepareFiles\<close> does not take the empty file either: it
  passes the request on to \<open>getOrDownloadFile\<close>.
\<close>

theorem empty_file_refetched:
  assumes "files w (getExpectedFilePath e url name None dir) = Some f0" and "content f0 = []"
  shows "fetches (snd (getOrDownloadFile e url dir name w)) = fetches w @ [url]
     \<and> (\<forall>r. fst (getOrDownloadFile e url dir name w) = Inr r \<longrightarrow>
           buffer r \<noteq> []
           \<and> path r = getExpectedFilePath e url name None dir
           \<and> files (snd (getOrDownloadFile e url dir name w)) (path r)
               = Some \<lparr>content = buffer r, ctype = contentType r\<rparr>)
     \<and> (\<forall>status reason ct body.
           http e (w\<lparr>fetches := fetches w @ [url]\<rparr>) url = HttpResponse status reason ct body
           \<and> 200 \<le> status \<and> status < 300 \<and> body \<noteq> [] \<longrightarrow>
           fst (getOrDownloadFile e url dir name w)
             = Inr \<lparr>path = getExpectedFilePath e url name None dir, buffer = body, contentType = ct\<rparr>
           \<and> files (snd (getOrDownloadFile e url dir name w)) (getExpectedFilePath e url name None dir)
               = Some \<lparr>content = body, ctype = ct\<rparr>)
     \<and> (dir = ''/tmp'' \<longrightarrow>
          prepareSample e \<lparr>sample_id = i, sample_name = name, sample_url = url, bpm = b\<rparr> w
            = (case getOrDownloadFile e url dir name w of
                 (Inl err, w1) \<Rightarrow> (None, w1)
               | (Inr r, w1) \<Rightarrow> (Some (i, path r), w1)))"
proof -
  let ?p = "getExpectedFilePath e url name None dir"
  let ?g = "getOrDownloadFile e url dir name w"
  have miss: "\<not> (existsSync w ?p \<and> statSize w ?p > 0)"
    using assms by (simp add: statSize_def)
  have a: "fetches (snd ?g) = fetches w @ [url]"
    using miss by (auto simp add: getOrDownloadFile_def Let_def split: http_result.splits)
  have b: "\<forall>r. fst ?g = Inr r \<longrightarrow>
           buffer r \<noteq> [] \<and> path r = ?p
           \<and> files (snd ?g) (path r) = Some \<lparr>content = buffer r, ctype = contentType r\<rparr>"
    using getOrDownloadFile_success [of e url dir name w]
    by (metis prod.collapse)
  have c: "\<forall>status reason ct body.
           http e (w\<lparr>fetches := fetches w @ [url]\<rparr>) url = HttpResponse status reason ct body
           \<and> 200 \<le> status \<and> status < 300 \<and> body \<noteq> [] \<longrightarrow>
           fst ?g = Inr \<lparr>path = ?p, buffer = body, contentType = ct\<rparr>
           \<and> files (snd ?g) ?p = Some \<lparr>content = body, ctype = ct\<rparr>"
    using miss by (auto simp add: getOrDownloadFile_def Let_def)
  have d: "dir = ''/tmp'' \<longrightarrow>
          prepareSample e \<lparr>sample_id = i, sample_name = name, sample_url = url, bpm = b\<rparr> w
            = (case ?g of (Inl err, w1) \<Rightarrow> (None, w1) | (Inr r, w1) \<Rightarrow> (Some (i, path r), w1))"
  proof
    assume dir: "dir = ''/tmp''"
    obtain res w1 where g: "?g = (res, w1)" by (cases ?g) auto
    show "prepareSample e \<lparr>sample_id = i, sample_name = name, sample_url = url, bpm = b\<rparr> w
            = (case ?g of (Inl err, w1) \<Rightarrow> (None, w1) | (Inr r, w1) \<Rightarrow> (Some (i, path r), w1))"
    proof (cases res)
      case (Inl err)
      with g miss dir show ?thesis by (simp add: prepareSample_def Let_def)
    next
      case (Inr r)
      with g getOrDownloadFile_success [of e url dir name w r w1]
      have "buffer r \<noteq> []" "files w1 (path r) = Some \<lparr>content = buffer r, ctype = contentType r\<rparr>"
        by simp_all
      then have "existsSync w1 (path r)" "statSize w1 (path r) > 0"
        by (simp_all add: existsSync_def statSize_def)
      with g Inr miss dir show ?thesis
        by (auto simp add: prepareSample_def Let_def)
    qed
  qed
  from a b c d show ?thesis by blast
qed

theorem empty_file_refetched_witness:
  "files empty_cached (getExpectedFilePath env_ok ''https://x/a.m4a'' ''Alpha'' None ''/tmp'')
     = Some \<lparr>content = [], ctype = ''audio/mp4''\<rparr>
   \<and> fetches empty_cached = []
   \<and> fetches (snd (getOrDownloadFile env_ok ''https://x/a.m4a'' ''/tmp'' ''Alpha'' empty_cached))
       = [''https://x/a.m4a'']
   \<and> fst (getOrDownloadFile env_ok ''https://x/a.m4a'' ''/tmp'' ''Alpha'' empty_cached)
       = Inr \<lparr>path = getExpectedFilePath env_ok ''https://x/a.m4a'' ''Alpha'' None ''/tmp'',
              buffer = ''RIFFdata'', contentType = ''audio/mp4''\<rparr>
   \<and> files (snd (getOrDownloadFile env_ok ''https://x/a.m4a'' ''/tmp'' ''Alpha'' empty_cached))
         (getExpectedFilePath env_ok ''https://x/a.m4a'' ''Alpha'' None ''/tmp'')
       = Some \<lparr>content = ''RIFFdata'', ctype = ''audio/mp4''\<rparr>"
proof -
  let ?p = "getExpectedFilePath env_ok ''https://x/a.m4a'' ''Alpha'' None ''/tmp''"
  have h1: "files empty_cached ?p = Some \<lparr>content = [], ctype = ''audio/mp4''\<rparr>"
    by (simp add: empty_cached_def alpha_path_def)
  have h2: "content \<lparr>content = [], ctype = ''audio/mp4''\<rparr> = []" by simp
  have h3: "http env_ok (empty_cached\<lparr>fetches := fetches empty_cached @ [''https://x/a.m4a'']\<rparr>)
              ''https://x/a.m4a'' = HttpResponse 200 ''OK'' ''audio/mp4'' ''RIFFdata''"
    by (simp add: env_ok_def)
  have h4: "fetches empty_cached = []" by (simp add: empty_cached_def init_world_def)
  have h5: "http env_ok (empty_cached\<lparr>fetches := fetches empty_cached @ [''https://x/a.m4a'']\<rparr>)
              ''https://x/a.m4a'' = HttpResponse 200 ''OK'' ''audio/mp4'' ''RIFFdata''
            \<and> (200::nat) \<le> 200 \<and> (200::nat) < 300 \<and> ''RIFFdata'' \<noteq> []"
    using h3 by simp
  note all = empty_file_refetched [OF h1 h2, where i = "''a''" and b = None]
  note refetch = all [THEN conjunct1]
  note overwrite = all [THEN conjunct2, THEN conjunct2, THEN conjunct1, rule_format, OF h5]
  from refetch h4
  have a: "fetches (snd (getOrDownloadFile env_ok ''https://x/a.m4a'' ''/tmp'' ''Alpha'' empty_cached))
             = [''https://x/a.m4a'']"
    by simp
  show ?thesis
    using h1 h4 a overwrite [THEN conjunct1] overwrite [THEN conjunct2]
    by (intro conjI)
qed

section \<open>Properties of the persisted configuration and the API client\<close>

lemma readState_total: "\<exists>st. readState e w = Inr st"
  by (auto simp add: readState_def split: option.splits sum.splits)

lemma readState_missing:
  "storage w = None \<or> (\<exists>raw. storage w = Some raw \<and> json_parse e raw = None) \<Longrightarrow>
   readState e w = Inr \<lparr>soundrawConfig = None\<rparr>"
  by (auto simp add: readState_def)

text \<open>
  Claim C10. Reading the configuration never throws, whatever is stored; with nothing
  stored, or with a string that \<open>JSON.parse\<close> rejects, \<open>readState\<close> gives the empty state
  and the three getters give \<open>undefined\<close>.
\<close>

theorem config_read_total:
  "(\<exists>st. readState e w = Inr st)
   \<and> (\<exists>c. getSoundrawConfig e w = Inr c)
   \<and> (\<exists>t. getSoundrawToken e w = Inr t)
   \<and> (\<exists>b. getSoundrawApiBaseUrl e w = Inr b)
   \<and> (storage w = None \<or> (\<exists>raw. storage w = Some raw \<and> json_parse e raw = None) \<longrightarrow>
        readState e w = Inr \<lparr>soundrawConfig = None\<rparr>
        \<and> getSoundrawConfig e w = Inr None
        \<and> getSoundrawToken e w = Inr None
        \<and> getSoundrawApiBaseUrl e w = Inr None)"
proof -
  obtain st where st: "readState e w = Inr st" using readState_total by blast
  then have a: "(\<exists>c. getSoundrawConfig e w = Inr c) \<and> (\<exists>t. getSoundrawToken e w = Inr t)
     \<and> (\<exists>b. getSoundrawApiBaseUrl e w = Inr b)"
    by (simp add: getSoundrawConfig_def getSoundrawToken_def getSoundrawApiBaseUrl_def)
  have b: "storage w = None \<or> (\<exists>raw. storage w = Some raw \<and> json_parse e raw = None) \<longrightarrow>
        readState e w = Inr \<lparr>soundrawConfig = None\<rparr>
        \<and> getSoundrawConfig e w = Inr None
        \<and> getSoundrawToken e w = Inr None
        \<and> getSoundrawApiBaseUrl e w = Inr None"
    using readState_missing [of w e]
    by (auto simp add: getSoundrawConfig_def getSoundrawToken_def getSoundrawApiBaseUrl_def)
  from st a b show ?thesis by blast
qed

theorem config_read_total_witness:
  "storage no_storage = None
   \<and> storage corrupt_storage = Some ''{soundrawConfig:''
   \<and> json_parse api_env_ok ''{soundrawConfig:'' = None
   \<and> readState api_env_ok no_storage = Inr \<lparr>soundrawConfig = None\<rparr>
   \<and> readState api_env_ok corrupt_storage = Inr \<lparr>soundrawConfig = None\<rparr>
   \<and> getSoundrawToken api_env_ok corrupt_storage = Inr None
   \<and> getSoundrawApiBaseUrl api_env_ok corrupt_storage = Inr None"
proof -
  have h1: "storage no_storage = None" by (simp add: no_storage_def)
  have h2: "storage corrupt_storage = Some ''{soundrawConfig:''" by (simp add: corrupt_storage_def)
  have h3: "json_parse api_env_ok ''{soundrawConfig:'' = None" by (simp add: api_env_ok_def)
  from h1 h2 h3 config_read_total [of api_env_ok no_storage]
       config_read_total [of api_env_ok corrupt_storage]
  show ?thesis by simp
qed

lemma makeRequest_unconfigured:
  assumes "getSoundrawToken e w = Inr token" and "getSoundrawApiBaseUrl e w = Inr base"
    and "\<not> truthy token \<or> \<not> truthy base"
  shows "makeRequest e endpoint w =
     (Inl (SoundrawAPIError
            (if \<not> truthy token then ''No API token found. Please set up your token first.''
             else ''No API base URL found. Please set up your configuration first.'') None), w)"
  using assms by (auto simp add: makeRequest_def)

text \<open>
  Claim C6. When the stored token or base URL is missing (or falsy), \<open>searchSamples\<close>
  and \<open>getAvailableGenres\<close> fail with the configuration error of \<open>makeRequest\<close> (a
  \<open>SoundrawAPIError\<close> without status) and leave the world as it was: no request is made.
\<close>

theorem unconfigured_call_fails_before_fetch:
  assumes "getSoundrawToken e w = Inr token" and "getSoundrawApiBaseUrl e w = Inr base"
    and "\<not> truthy token \<or> \<not> truthy base"
  shows "searchSamples e params w =
           (Inl (SoundrawAPIError
              (if \<not> truthy token then ''No API token found. Please set up your token first.''
               else ''No API base URL found. Please set up your configuration first.'') None), w)
     \<and> getAvailableGenres e w =
           (Inl (SoundrawAPIError
              (if \<not> truthy token then ''No API token found. Please set up your token first.''
               else ''No API base URL found. Please set up your configuration first.'') None), w)
     \<and> requests (snd (searchSamples e params w)) = requests w
     \<and> requests (snd (getAvailableGenres e w)) = requests w"
  using makeRequest_unconfigured [OF assms]
  by (simp add: searchSamples_def getAvailableGenres_def Let_def)

theorem unconfigured_call_fails_before_fetch_witness:
  "getSoundrawToken api_env_ok tokenless_storage = Inr None
   \<and> getSoundrawApiBaseUrl api_env_ok tokenless_storage = Inr (Some (JStr ''https://api.example/v4''))
   \<and> \<not> truthy None
   \<and> searchSamples api_env_ok \<lparr>genres = Some [''lofi''], page = None, limit = None\<rparr> tokenless_storage
       = (Inl (SoundrawAPIError ''No API token found. Please set up your token first.'' None),
          tokenless_storage)
   \<and> getAvailableGenres api_env_ok tokenless_storage
       = (Inl (SoundrawAPIError ''No API token found. Please set up your token first.'' None),
          tokenless_storage)
   \<and> requests (snd (getAvailableGenres api_env_ok tokenless_storage)) = []"
proof -
  have h1: "getSoundrawToken api_env_ok tokenless_storage = Inr None"
    by (simp add: getSoundrawToken_def getSoundrawConfig_def readState_def tokenless_storage_def
          api_env_ok_def)
  have h2: "getSoundrawApiBaseUrl api_env_ok tokenless_storage = Inr (Some (JStr ''https://api.example/v4''))"
    by (simp add: getSoundrawApiBaseUrl_def getSoundrawConfig_def readState_def tokenless_storage_def
          api_env_ok_def)
  have h3: "\<not> truthy None \<or> \<not> truthy (Some (JStr ''https://api.example/v4''))" by simp
  have r: "requests tokenless_storage = []" by (simp add: tokenless_storage_def)
  from unconfigured_call_fails_before_fetch [OF h1 h2 h3, of "\<lparr>genres = Some [''lofi''], page = None, limit = None\<rparr>"]
       h1 h2 r
  show ?thesis by simp
qed

end
